theory Spec2Isabelle
  imports Main "HOL-Library.Word"
begin

section \<open>JavaScript values\<close>

text \<open>
  The option bags of the server carry arbitrary JavaScript values. The fragment the
  program inspects is modelled here: \<open>undefined\<close>, \<open>null\<close>, booleans, integral numbers
  and strings. \<open>truthy\<close> is the coercion that \<open>||\<close>, \<open>!\<close>, \<open>!!\<close>, \<open>Boolean(...)\<close> and
  \<open>if (...)\<close> apply.
\<close>

datatype jsval = JUndefined | JNull | JBool bool | JNum int | JStr string

fun truthy :: "jsval \<Rightarrow> bool" where
  "truthy JUndefined = False"
| "truthy JNull = False"
| "truthy (JBool b) = b"
| "truthy (JNum n) = (n \<noteq> 0)"
| "truthy (JStr s) = (s \<noteq> [])"

text \<open>\<open>a || b\<close>: the left operand when it is truthy, the right operand otherwise.\<close>

definition js_or :: "jsval \<Rightarrow> jsval \<Rightarrow> jsval" where
  "js_or a b = (if truthy a then a else b)"

text \<open>
  Raised errors: the built-in classes by name and message, and host errors that carry
  a \<open>code\<close> property (\<open>CodedError code message\<close>), such as \<open>MODULE_NOT_FOUND\<close>.
\<close>

datatype js_error = TypeError string | SyntaxError string | Error string | CodedError string string

definition quoted :: "string \<Rightarrow> string" where
  "quoted s = [CHR 0x27] @ s @ [CHR 0x27]"

definition startsWith :: "string \<Rightarrow> string \<Rightarrow> bool" where
  "startsWith s p = (take (length p) s = p)"

text \<open>\<open>s.split(d)\<close> for a one-character separator: the result is never empty.\<close>

fun split_on :: "char \<Rightarrow> string \<Rightarrow> string list" where
  "split_on d [] = [[]]"
| "split_on d (c # cs) =
     (if c = d then [] # split_on d cs
      else (case split_on d cs of p # ps \<Rightarrow> (c # p) # ps | [] \<Rightarrow> [[c]]))"

fun join_with :: "string \<Rightarrow> string list \<Rightarrow> string" where
  "join_with sep [] = []"
| "join_with sep [p] = p"
| "join_with sep (p # q # ps) = p @ sep @ join_with sep (q # ps)"

section \<open>JavaScript strings\<close>

text \<open>
  A JavaScript string is a sequence of 16-bit code units. The paths and messages above
  are plain ASCII and are written as Isabelle strings; where the code looks at single
  characters beyond ASCII (U+2028, U+2029) or at arbitrary text, strings are lists of
  code units. \<open>js\<close> embeds an ASCII literal.
\<close>

type_synonym jschar = "16 word"

type_synonym jsstring = "jschar list"

definition js :: "string \<Rightarrow> jsstring" where
  "js s = map (\<lambda>c. of_nat (of_char c)) s"

section \<open>SsrPaths (src/utils/ssr-paths.js)\<close>

text \<open>
  The argument of \<open>setPaths({ distPath, clientPath, ssrPath } = {})\<close>: a property that
  the options object does not have reads as \<open>undefined\<close>.
\<close>

record path_options =
  opt_distPath :: jsval
  opt_clientPath :: jsval
  opt_ssrPath :: jsval

text \<open>
  What the caller passes: nothing (the default \<open>{}\<close> applies), \<open>null\<close> (the default
  does not apply and destructuring \<open>null\<close> raises a TypeError), or an object.
\<close>

datatype paths_arg = ArgUndefined | ArgNull | ArgObject path_options

record ssr_paths =
  distPath :: jsval
  clientPath :: jsval
  ssrPath :: jsval
  hasPath :: bool

definition empty_options :: path_options where
  "empty_options = \<lparr>opt_distPath = JUndefined, opt_clientPath = JUndefined, opt_ssrPath = JUndefined\<rparr>"

definition assignPaths :: "path_options \<Rightarrow> ssr_paths" where
  "assignPaths opts =
     \<lparr>distPath = opt_distPath opts,
      clientPath = js_or (js_or (opt_clientPath opts) (opt_distPath opts)) (opt_ssrPath opts),
      ssrPath = js_or (js_or (opt_ssrPath opts) (opt_distPath opts)) (opt_clientPath opts),
      hasPath = truthy (js_or (js_or (opt_distPath opts) (opt_clientPath opts)) (opt_ssrPath opts))\<rparr>"

fun setPaths :: "paths_arg \<Rightarrow> js_error + ssr_paths" where
  "setPaths ArgUndefined = Inr (assignPaths empty_options)"
| "setPaths ArgNull =
     Inl (TypeError (''Cannot destructure property '' @ quoted ''distPath'' @ '' of '' @
                     quoted ''object null'' @ '' as it is null.''))"
| "setPaths (ArgObject opts) = Inr (assignPaths opts)"

text \<open>The constructor only calls \<open>setPaths\<close> on a fresh object.\<close>

definition newSsrPaths :: "paths_arg \<Rightarrow> js_error + ssr_paths" where
  "newSsrPaths options = setPaths options"

section \<open>The host: file system, path functions, module resolution\<close>

text \<open>
  The entry scripts and the modules they import are files. What the loader needs from
  the text of a module is its static import specifiers (in source order), whether
  evaluating its body raises, and what its namespace holds under \<open>createSsrApp\<close>.
\<close>

text \<open>
  The value of \<open>module.namespace?.createSsrApp\<close>: missing, \<open>null\<close>, some other value that
  is not a function (with its truthiness), or a function (with the error that calling
  it raises, if any).
\<close>

datatype export = ExpUndefined | ExpNull | ExpOther bool | ExpFunction "js_error option"

record module_source =
  staticImports :: "string list"
  evalThrows :: "js_error option"
  createSsrApp :: export

text \<open>A file whose text is not a module (\<open>File None\<close>) makes \<open>new vm.SourceTextModule\<close> raise.\<close>

datatype fs_entry = Directory | File "module_source option"

text \<open>
  Node's \<open>path\<close> functions, \<open>require.resolve\<close>, the \<open>resolve\<close> package and the host's
  \<open>require\<close> are not part of the repository: they are fields of the host, and the
  theorems hold for every host.
\<close>

record host =
  fs :: "string \<Rightarrow> fs_entry option"
  path_dirname :: "string \<Rightarrow> string"
  path_resolve :: "string \<Rightarrow> string \<Rightarrow> string"
  path_normalize :: "string \<Rightarrow> string"
  require_resolve :: "string \<Rightarrow> js_error + string"
  resolve_sync :: "string \<Rightarrow> string \<Rightarrow> js_error + string"
  host_require :: "string \<Rightarrow> js_error + string"

text \<open>\<open>statSync(p, { throwIfNoEntry: false })?.isFile()\<close>\<close>

definition statIsFile :: "host \<Rightarrow> string \<Rightarrow> bool" where
  "statIsFile h p = (case fs h p of Some (File _) \<Rightarrow> True | _ \<Rightarrow> False)"

section \<open>Package names and the sandbox require (src/utils/get-package-name.js, src/ssr-schema.js)\<close>

text \<open>\<open>parts[i]\<close> inside a string concatenation: a missing element prints as \<open>undefined\<close>.\<close>

definition part_text :: "string list \<Rightarrow> nat \<Rightarrow> string" where
  "part_text parts i = (if i < length parts then parts ! i else ''undefined'')"

definition getPackageName :: "string \<Rightarrow> string" where
  "getPackageName modulePath =
     (let parts = split_on CHR ''/'' modulePath in
      if (case modulePath of c # _ \<Rightarrow> c = CHR ''@'' | [] \<Rightarrow> False)
      then part_text parts 0 @ ''/'' @ part_text parts 1
      else (case parts of p # _ \<Rightarrow> p | [] \<Rightarrow> []))"

definition notAllowedMessage :: "string \<Rightarrow> string \<Rightarrow> string" where
  "notAllowedMessage moduleName packageName =
     ''Unable to require module '' @ quoted moduleName @ '' in EmberSsr because its package '' @
     quoted packageName @ '' was not explicitly allowed in '' @ quoted ''ssrDependencies'' @
     '' in your package.json.''"

definition isModuleNotFound :: "js_error \<Rightarrow> bool" where
  "isModuleNotFound e = (case e of CodedError c _ \<Rightarrow> c = ''MODULE_NOT_FOUND'' | _ \<Rightarrow> False)"

text \<open>
  The function that \<open>buildWhitelistedRequire(whitelist, ssrPath)\<close> returns (\<open>ssrDir\<close> is its
  \<open>ssrPath\<close>). The first
  component of the result lists the module ids handed to the host's \<open>require\<close>, in
  order: the host modules this call asked the host to load.
\<close>

definition whitelistedRequire ::
  "host \<Rightarrow> string list \<Rightarrow> string \<Rightarrow> string \<Rightarrow> string list \<times> (js_error + string)" where
  "whitelistedRequire h whitelist ssrDir moduleName =
     (let packageName = getPackageName moduleName;
          isWhitelisted = (packageName \<in> set whitelist)
      in if isWhitelisted then
           (case resolve_sync h moduleName ssrDir of
              Inl error \<Rightarrow>
                (if isModuleNotFound error then ([moduleName], host_require h moduleName)
                 else ([], Inl error))
            | Inr resolvedModulePath \<Rightarrow>
                (case host_require h resolvedModulePath of
                   Inr exports \<Rightarrow> ([resolvedModulePath], Inr exports)
                 | Inl error \<Rightarrow>
                     (if isModuleNotFound error
                      then ([resolvedModulePath, moduleName], host_require h moduleName)
                      else ([resolvedModulePath], Inl error))))
         else ([], Inl (Error (notAllowedMessage moduleName packageName))))"

section \<open>The script import graph (src/ember-app.js)\<close>

subsection \<open>resolveImport\<close>

record attempt =
  att_file :: "string option"
  att_ext :: "string option"

definition attempts :: "attempt list" where
  "attempts = [\<lparr>att_file = None, att_ext = None\<rparr>,
               \<lparr>att_file = Some ''index.js'', att_ext = None\<rparr>,
               \<lparr>att_file = None, att_ext = Some ''.mjs''\<rparr>,
               \<lparr>att_file = None, att_ext = Some ''.js''\<rparr>]"

text \<open>\<open>if (attempt.file)\<close>, \<open>if (attempt.ext)\<close>: a property that is there and not empty.\<close>

definition present :: "string option \<Rightarrow> bool" where
  "present v = (case v of None \<Rightarrow> False | Some s \<Rightarrow> s \<noteq> [])"

definition attemptPath :: "host \<Rightarrow> string \<Rightarrow> attempt \<Rightarrow> string" where
  "attemptPath h resolvedPath a =
     (let p1 = (if present (att_file a) then path_resolve h resolvedPath (the (att_file a))
                else resolvedPath);
          p2 = (if present (att_ext a) then p1 @ the (att_ext a) else p1)
      in p2)"

text \<open>The \<open>for\<close> loop with its \<open>break\<close>: \<open>foundPath\<close>, or \<open>None\<close> while it is undefined.\<close>

fun tryAttempts :: "host \<Rightarrow> string \<Rightarrow> attempt list \<Rightarrow> string option" where
  "tryAttempts h resolvedPath [] = None"
| "tryAttempts h resolvedPath (a # as) =
     (if statIsFile h (attemptPath h resolvedPath a) then Some (attemptPath h resolvedPath a)
      else tryAttempts h resolvedPath as)"

definition resolveImport :: "host \<Rightarrow> string \<Rightarrow> string \<Rightarrow> js_error + string" where
  "resolveImport h specifier importerPath =
     (if \<not> startsWith specifier ''.'' then require_resolve h specifier
      else let resolvedPath =
                 path_normalize h (path_resolve h (path_dirname h importerPath) specifier)
           in (case tryAttempts h resolvedPath attempts of
                 Some foundPath \<Rightarrow>
                   if foundPath \<noteq> [] then Inr foundPath else require_resolve h specifier
               | None \<Rightarrow> require_resolve h specifier))"

subsection \<open>buildScript and link\<close>

text \<open>
  \<open>buildScript\<close> reads a file, makes a module of it and links it: \<open>module.link(link)\<close>
  calls \<open>link\<close> for each static import in order. \<open>link\<close> resolves the specifier against
  the importing module, builds that script in turn and evaluates it. Nothing caches a
  module, so an import cycle recurses without end: the functions take fuel, and \<open>None\<close>
  is a build that does not return within it. The trace lists the identifiers of the
  modules whose body was run, in order of evaluation. A dynamic \<open>import()\<close> goes through
  the same \<open>link\<close>, with the entry script as the base; only static imports are modelled.
\<close>

type_synonym trace = "string list"

type_synonym 'a loaded = "(trace \<times> (js_error + 'a)) option"

text \<open>
  \<open>link\<close> and the loop of \<open>module.link(link)\<close> over the static imports, given the
  \<open>buildScript\<close> they call back (\<open>build\<close>).
\<close>

definition linkWith ::
  "(host \<Rightarrow> string \<Rightarrow> string \<Rightarrow> trace \<Rightarrow> module_source loaded) \<Rightarrow>
   host \<Rightarrow> string \<Rightarrow> string \<Rightarrow> string \<Rightarrow> trace \<Rightarrow> module_source loaded" where
  "linkWith build h defaultBase specifier referencing tr =
     (let base = (if referencing \<noteq> [] then referencing else defaultBase) in
      case resolveImport h specifier base of
        Inl e \<Rightarrow> Some (tr, Inl e)
      | Inr identifier \<Rightarrow>
          (case build h defaultBase identifier tr of
             None \<Rightarrow> None
           | Some (tr', Inl e) \<Rightarrow> Some (tr', Inl e)
           | Some (tr', Inr src) \<Rightarrow>
               (case evalThrows src of
                  Some e \<Rightarrow> Some (tr' @ [identifier], Inl e)
                | None \<Rightarrow> Some (tr' @ [identifier], Inr src))))"

primrec linkEachWith ::
  "(host \<Rightarrow> string \<Rightarrow> string \<Rightarrow> trace \<Rightarrow> module_source loaded) \<Rightarrow>
   host \<Rightarrow> string \<Rightarrow> string \<Rightarrow> string list \<Rightarrow> trace \<Rightarrow> unit loaded" where
  "linkEachWith build h defaultBase referencing [] tr = Some (tr, Inr ())"
| "linkEachWith build h defaultBase referencing (specifier # rest) tr =
     (case linkWith build h defaultBase specifier referencing tr of
        None \<Rightarrow> None
      | Some (tr', Inl e) \<Rightarrow> Some (tr', Inl e)
      | Some (tr', Inr _) \<Rightarrow> linkEachWith build h defaultBase referencing rest tr')"

primrec buildScript ::
  "nat \<Rightarrow> host \<Rightarrow> string \<Rightarrow> string \<Rightarrow> trace \<Rightarrow> module_source loaded" where
  "buildScript 0 h defaultBase filePath tr = None"
| "buildScript (Suc n) h defaultBase filePath tr =
     (case fs h filePath of
        None \<Rightarrow> Some (tr, Inl (CodedError ''ENOENT'' filePath))
      | Some Directory \<Rightarrow> Some (tr, Inl (CodedError ''EISDIR'' filePath))
      | Some (File None) \<Rightarrow> Some (tr, Inl (SyntaxError filePath))
      | Some (File (Some src)) \<Rightarrow>
          (case linkEachWith (buildScript n) h defaultBase filePath (staticImports src) tr of
             None \<Rightarrow> None
           | Some (tr', Inl e) \<Rightarrow> Some (tr', Inl e)
           | Some (tr', Inr _) \<Rightarrow> Some (tr', Inr src)))"

definition link ::
  "nat \<Rightarrow> host \<Rightarrow> string \<Rightarrow> string \<Rightarrow> string \<Rightarrow> trace \<Rightarrow> module_source loaded" where
  "link n = linkWith (buildScript n)"

section \<open>Building the application (EmberApp.buildApp)\<close>

text \<open>\<open>createSsrApp ??= v\<close>: assigns only while the variable is \<open>undefined\<close> or \<open>null\<close>.\<close>

definition nullishAssign :: "export \<Rightarrow> export \<Rightarrow> export" where
  "nullishAssign current v = (case current of ExpUndefined \<Rightarrow> v | ExpNull \<Rightarrow> v | _ \<Rightarrow> current)"

text \<open>\<open>typeof v === 'function'\<close>\<close>

definition isFunction :: "export \<Rightarrow> bool" where
  "isFunction v = (case v of ExpFunction _ \<Rightarrow> True | _ \<Rightarrow> False)"

text \<open>
  The loop over \<open>this.scripts\<close>. A script whose build is rejected rejects the whole
  build (\<open>Inl\<close>); one whose evaluation raises is caught, logged, and the build returns
  \<open>null\<close> (\<open>Inr None\<close>); at the end of the loop the value of \<open>createSsrApp\<close> is returned
  (\<open>Inr (Some factory)\<close>). The lines written to the console are left out.
\<close>

fun evalScripts ::
  "nat \<Rightarrow> host \<Rightarrow> string list \<Rightarrow> export \<Rightarrow> trace \<Rightarrow> (export option) loaded" where
  "evalScripts n h [] factory tr = Some (tr, Inr (Some factory))"
| "evalScripts n h (script # rest) factory tr =
     (if script = [] then evalScripts n h rest factory tr
      else case buildScript n h script script tr of
             None \<Rightarrow> None
           | Some (tr', Inl e) \<Rightarrow> Some (tr', Inl e)
           | Some (tr', Inr src) \<Rightarrow>
               (case evalThrows src of
                  Some e \<Rightarrow> Some (tr' @ [script], Inr None)
                | None \<Rightarrow>
                    evalScripts n h rest (nullishAssign factory (createSsrApp src))
                      (tr' @ [script])))"

text \<open>
  \<open>{ app: createSsrApp(), context }\<close>: the sandbox, with the modules that were evaluated
  in its context. \<open>buildApp\<close> below ends with the test
  \<open>!createSsrApp || typeof createSsrApp !== 'function'\<close>, under which it logs a message
  and returns \<open>null\<close>, and otherwise calls the factory.
\<close>

datatype app_context = AppContext trace

text \<open>
  The promise that \<open>buildApp\<close> returns: never settled (\<open>None\<close>), rejected (\<open>Inl\<close>),
  resolved with \<open>null\<close> (\<open>Inr None\<close>) or with a sandbox.
\<close>

type_synonym build = "(js_error + app_context option) option"

definition buildApp :: "nat \<Rightarrow> host \<Rightarrow> string list \<Rightarrow> build" where
  "buildApp n h scripts =
     (case evalScripts n h scripts ExpUndefined [] of
        None \<Rightarrow> None
      | Some (tr, Inl e) \<Rightarrow> Some (Inl e)
      | Some (tr, Inr None) \<Rightarrow> Some (Inr None)
      | Some (tr, Inr (Some factory)) \<Rightarrow>
          (case factory of
             ExpFunction None \<Rightarrow> Some (Inr (Some (AppContext tr)))
           | ExpFunction (Some e) \<Rightarrow> Some (Inl e)
           | _ \<Rightarrow> Some (Inr None)))"

section \<open>JSON values and the host's JSON.stringify and JSON.parse\<close>

subsection \<open>Numbers\<close>

text \<open>
  A Number of the language is NaN, an infinity, -0, or a finite number other than -0.
  \<open>Number::toString\<close> works on a finite number \<open>x\<close> other than zero through the integers
  \<open>n\<close>, \<open>k\<close> and \<open>s\<close> with \<open>k\<close> digits in \<open>s\<close>, as few as possible, such that \<open>s * 10 ^ (n - k)\<close>
  is \<open>x\<close> (rounds to \<open>x\<close>). These digits identify the number: \<open>Decimal m e\<close> is the number
  with \<open>s = |m|\<close>, the sign of \<open>m\<close> and \<open>n - k = e\<close>, and +0 is \<open>Decimal 0 0\<close>. So a number
  is told apart from -0 and from the texts that denote it (\<open>2.5\<close>, \<open>2.50\<close> and \<open>25e-1\<close> all
  denote \<open>Decimal 25 (-1)\<close>), and no binary arithmetic is needed.
\<close>

datatype jsnumber = NaN | PosInfinity | NegInfinity | NegZero | Decimal int int

definition isFiniteNumber :: "jsnumber \<Rightarrow> bool" where
  "isFiniteNumber x = (case x of NegZero \<Rightarrow> True | Decimal m e \<Rightarrow> True | _ \<Rightarrow> False)"

definition digitChar :: "nat \<Rightarrow> jschar" where
  "digitChar d = of_nat (48 + d)"

text \<open>The decimal digits of an integer that is not negative, without leading zeros.\<close>

function digitsOf :: "int \<Rightarrow> jsstring" where
  "digitsOf n =
     (if n < 10 then [digitChar (nat n)] else digitsOf (n div 10) @ [digitChar (nat (n mod 10))])"
  by pat_completeness auto

termination digitsOf
  by (relation "measure nat") auto

declare digitsOf.simps [simp del]

text \<open>
  Steps 5 to 10 of \<open>Number::toString\<close> for radix 10, from the digits of \<open>s\<close> and \<open>n\<close>: the
  digits and zeros of an integer, the digits around a point, \<open>0.\<close> with zeros and the
  digits, or the exponent form with a signed exponent \<open>n - 1\<close>.
\<close>

definition formatDigits :: "jsstring \<Rightarrow> int \<Rightarrow> jsstring" where
  "formatDigits ds n =
     (let k = int (length ds) in
      if k \<le> n \<and> n \<le> 21 then ds @ replicate (nat (n - k)) 0x30
      else if 0 < n \<and> n \<le> 21 then take (nat n) ds @ [0x2E] @ drop (nat n) ds
      else if - 6 < n \<and> n \<le> 0 then [0x30, 0x2E] @ replicate (nat (- n)) 0x30 @ ds
      else (case ds of
              [] \<Rightarrow> []
            | d # r \<Rightarrow>
                (if r = [] then [d] else d # 0x2E # r)
                @ [0x65] @ (if n - 1 < 0 then [0x2D] else [0x2B]) @ digitsOf \<bar>n - 1\<bar>))"

text \<open>\<open>Number::toString(x)\<close>: -0 is written as +0 is.\<close>

definition numberToString :: "jsnumber \<Rightarrow> jsstring" where
  "numberToString x =
     (case x of
        NaN \<Rightarrow> js ''NaN''
      | PosInfinity \<Rightarrow> js ''Infinity''
      | NegInfinity \<Rightarrow> js ''-Infinity''
      | NegZero \<Rightarrow> js ''0''
      | Decimal m e \<Rightarrow>
          if m = 0 then js ''0''
          else (let ds = digitsOf \<bar>m\<bar> in
                (if m < 0 then [0x2D] else []) @ formatDigits ds (e + int (length ds))))"

text \<open>
  Reading a decimal text gives the Number nearest to its mathematical value. The
  rounding is the host's: \<open>rnd m e\<close> is the Number for the decimal \<open>m * 10 ^ e\<close>, where \<open>m\<close> is
  not zero and does not end in a zero. The language guarantees that the shortest
  digits of a Number round to it, so the finite Numbers other than the zeros are the
  \<open>Decimal m e\<close> with \<open>rnd m e = Decimal m e\<close>.
\<close>

type_synonym rounding = "int \<Rightarrow> int \<Rightarrow> jsnumber"

text \<open>The finite Numbers other than -0: what a JSON text can carry exactly.\<close>

definition isExactNumber :: "rounding \<Rightarrow> jsnumber \<Rightarrow> bool" where
  "isExactNumber rnd x =
     (case x of
        Decimal m e \<Rightarrow> (m = 0 \<and> e = 0) \<or> (m \<noteq> 0 \<and> m mod 10 \<noteq> 0 \<and> rnd m e = Decimal m e)
      | _ \<Rightarrow> False)"

subsection \<open>JSON values\<close>

text \<open>
  The values that JSON can carry. An object is the list of its properties in their
  enumeration order.
\<close>

datatype json =
    JsonNull
  | JsonBool bool
  | JsonNumber jsnumber
  | JsonString jsstring
  | JsonArray "json list"
  | JsonObject "(jsstring \<times> json) list"

subsection \<open>JSON.stringify\<close>

definition hexDigit :: "nat \<Rightarrow> jschar" where
  "hexDigit d = of_nat (if d < 10 then 48 + d else 87 + d)"

text \<open>\<open>\uXXXX\<close> with four lowercase hexadecimal digits.\<close>

definition unicodeEscape :: "jschar \<Rightarrow> jsstring" where
  "unicodeEscape c =
     [0x5C, 0x75, hexDigit (unat c div 4096), hexDigit (unat c div 256 mod 16),
      hexDigit (unat c div 16 mod 16), hexDigit (unat c mod 16)]"

definition isLeadingSurrogate :: "jschar \<Rightarrow> bool" where
  "isLeadingSurrogate c = (0xD800 \<le> c \<and> c \<le> 0xDBFF)"

definition isTrailingSurrogate :: "jschar \<Rightarrow> bool" where
  "isTrailingSurrogate c = (0xDC00 \<le> c \<and> c \<le> 0xDFFF)"

text \<open>
  One code point of \<open>QuoteJSONString\<close> that is a single code unit: the short escapes,
  \<open>\uXXXX\<close> for the other control characters and for a surrogate that stands alone, and
  the code unit itself otherwise.
\<close>

definition quoteUnit :: "jschar \<Rightarrow> jsstring" where
  "quoteUnit c =
     (if c = 0x08 then [0x5C, 0x62]
      else if c = 0x09 then [0x5C, 0x74]
      else if c = 0x0A then [0x5C, 0x6E]
      else if c = 0x0C then [0x5C, 0x66]
      else if c = 0x0D then [0x5C, 0x72]
      else if c = 0x22 then [0x5C, 0x22]
      else if c = 0x5C then [0x5C, 0x5C]
      else if c < 0x20 \<or> isLeadingSurrogate c \<or> isTrailingSurrogate c then unicodeEscape c
      else [c])"

text \<open>A leading surrogate followed by a trailing one is one code point and is copied.\<close>

fun quoteUnits :: "jsstring \<Rightarrow> jsstring" where
  "quoteUnits [] = []"
| "quoteUnits [c] = quoteUnit c"
| "quoteUnits (c1 # c2 # t) =
     (if isLeadingSurrogate c1 \<and> isTrailingSurrogate c2 then c1 # c2 # quoteUnits t
      else quoteUnit c1 @ quoteUnits (c2 # t))"

definition quoteJSONString :: "jsstring \<Rightarrow> jsstring" where
  "quoteJSONString s = [0x22] @ quoteUnits s @ [0x22]"

text \<open>
  \<open>JSON.stringify(value)\<close> without indentation. A finite number is written as
  \<open>Number::toString\<close> writes it, any other number as \<open>null\<close>.
\<close>

fun JSON_stringify :: "json \<Rightarrow> jsstring"
and stringifyElements :: "json list \<Rightarrow> jsstring"
and stringifyMembers :: "(jsstring \<times> json) list \<Rightarrow> jsstring" where
  "JSON_stringify JsonNull = js ''null''"
| "JSON_stringify (JsonBool b) = (if b then js ''true'' else js ''false'')"
| "JSON_stringify (JsonNumber x) = (if isFiniteNumber x then numberToString x else js ''null'')"
| "JSON_stringify (JsonString s) = quoteJSONString s"
| "JSON_stringify (JsonArray vs) = [0x5B] @ stringifyElements vs @ [0x5D]"
| "JSON_stringify (JsonObject ms) = [0x7B] @ stringifyMembers ms @ [0x7D]"
| "stringifyElements [] = []"
| "stringifyElements [v] = JSON_stringify v"
| "stringifyElements (v # w # vs) = JSON_stringify v @ [0x2C] @ stringifyElements (w # vs)"
| "stringifyMembers [] = []"
| "stringifyMembers [(k, v)] = quoteJSONString k @ [0x3A] @ JSON_stringify v"
| "stringifyMembers ((k, v) # m # ms) =
     quoteJSONString k @ [0x3A] @ JSON_stringify v @ [0x2C] @ stringifyMembers (m # ms)"

subsection \<open>JSON.parse\<close>

definition isWs :: "jschar \<Rightarrow> bool" where
  "isWs c = (c = 0x20 \<or> c = 0x09 \<or> c = 0x0A \<or> c = 0x0D)"

definition skipWs :: "jsstring \<Rightarrow> jsstring" where
  "skipWs s = dropWhile isWs s"

definition hexValue :: "jschar \<Rightarrow> nat option" where
  "hexValue c =
     (let n = unat c in
      if 48 \<le> n \<and> n \<le> 57 then Some (n - 48)
      else if 97 \<le> n \<and> n \<le> 102 then Some (n - 87)
      else if 65 \<le> n \<and> n \<le> 70 then Some (n - 55)
      else None)"

definition hex4 :: "jschar \<Rightarrow> jschar \<Rightarrow> jschar \<Rightarrow> jschar \<Rightarrow> jschar option" where
  "hex4 h1 h2 h3 h4 =
     (case (hexValue h1, hexValue h2, hexValue h3, hexValue h4) of
        (Some a, Some b, Some c, Some d) \<Rightarrow> Some (of_nat (((a * 16 + b) * 16 + c) * 16 + d))
      | _ \<Rightarrow> None)"

definition consUnit :: "jschar \<Rightarrow> (jsstring \<times> jsstring) option \<Rightarrow> (jsstring \<times> jsstring) option" where
  "consUnit c r = (case r of None \<Rightarrow> None | Some (s, rest) \<Rightarrow> Some (c # s, rest))"

text \<open>
  The characters of a string after its opening quote, up to the closing quote: the
  string and the rest of the input.
\<close>

fun parseChars :: "jsstring \<Rightarrow> (jsstring \<times> jsstring) option" where
  "parseChars [] = None"
| "parseChars (c # t) =
     (if c = 0x22 then Some ([], t)
      else if c = 0x5C then
        (case t of
           [] \<Rightarrow> None
         | e # t1 \<Rightarrow>
             if e = 0x22 then consUnit 0x22 (parseChars t1)
             else if e = 0x5C then consUnit 0x5C (parseChars t1)
             else if e = 0x2F then consUnit 0x2F (parseChars t1)
             else if e = 0x62 then consUnit 0x08 (parseChars t1)
             else if e = 0x66 then consUnit 0x0C (parseChars t1)
             else if e = 0x6E then consUnit 0x0A (parseChars t1)
             else if e = 0x72 then consUnit 0x0D (parseChars t1)
             else if e = 0x74 then consUnit 0x09 (parseChars t1)
             else if e = 0x75 then
               (case t1 of
                  h1 # h2 # h3 # h4 # t2 \<Rightarrow>
                    (case hex4 h1 h2 h3 h4 of
                       None \<Rightarrow> None
                     | Some u \<Rightarrow> consUnit u (parseChars t2))
                | _ \<Rightarrow> None)
             else None)
      else if c < 0x20 then None
      else consUnit c (parseChars t))"

definition isDigit :: "jschar \<Rightarrow> bool" where
  "isDigit c = (0x30 \<le> c \<and> c \<le> 0x39)"

text \<open>The characters that a number can be made of: no token that may follow a value starts with one.\<close>

definition isNumChar :: "jschar \<Rightarrow> bool" where
  "isNumChar c = (isDigit c \<or> c = 0x2D \<or> c = 0x2B \<or> c = 0x2E \<or> c = 0x65 \<or> c = 0x45)"

text \<open>
  The grammar of a JSON number: an optional minus, an integer part without a leading
  zero, an optional fraction, an optional exponent.
\<close>

definition isExponent :: "jsstring \<Rightarrow> bool" where
  "isExponent r =
     (case r of
        [] \<Rightarrow> True
      | c # r1 \<Rightarrow>
          (c = 0x65 \<or> c = 0x45) \<and>
          (let ds = (case r1 of [] \<Rightarrow> [] | s # r2 \<Rightarrow> if s = 0x2B \<or> s = 0x2D then r2 else r1)
           in ds \<noteq> [] \<and> list_all isDigit ds))"

definition isFractionExponent :: "jsstring \<Rightarrow> bool" where
  "isFractionExponent r =
     (case r of
        [] \<Rightarrow> True
      | c # r1 \<Rightarrow>
          if c = 0x2E then takeWhile isDigit r1 \<noteq> [] \<and> isExponent (dropWhile isDigit r1)
          else isExponent r)"

definition isJsonNumber :: "jsstring \<Rightarrow> bool" where
  "isJsonNumber t =
     (let u = (case t of [] \<Rightarrow> [] | c # r \<Rightarrow> if c = 0x2D then r else t);
          ip = takeWhile isDigit u
      in (ip = [0x30] \<or> (ip \<noteq> [] \<and> hd ip \<noteq> 0x30)) \<and> isFractionExponent (dropWhile isDigit u))"


text \<open>The value of a run of decimal digits.\<close>

definition digitValue :: "jschar \<Rightarrow> nat" where
  "digitValue c = unat c - 48"

definition digitsValue :: "jsstring \<Rightarrow> int" where
  "digitsValue ds = foldl (\<lambda>a c. a * 10 + int (digitValue c)) 0 ds"

text \<open>The exponent part of a number token (empty, or \<open>e\<close> or \<open>E\<close>, an optional sign and digits).\<close>

definition exponentOf :: "jsstring \<Rightarrow> int" where
  "exponentOf r =
     (case r of
        [] \<Rightarrow> 0
      | c # r1 \<Rightarrow>
          (case r1 of
             [] \<Rightarrow> 0
           | s # r2 \<Rightarrow>
               if s = 0x2D then - digitsValue r2
               else if s = 0x2B then digitsValue r2
               else digitsValue r1))"

text \<open>
  The mathematical value of a number token without its sign, as a decimal
  \<open>m * 10 ^ e\<close>: the digits of the integer part and of the fraction, and the exponent less
  the number of fraction digits.
\<close>

definition unsignedDecimal :: "jsstring \<Rightarrow> int \<times> int" where
  "unsignedDecimal u =
     (let ip = takeWhile isDigit u;
          r1 = dropWhile isDigit u;
          fp = (case r1 of [] \<Rightarrow> [] | c # r \<Rightarrow> if c = 0x2E then takeWhile isDigit r else []);
          r2 = (case r1 of [] \<Rightarrow> [] | c # r \<Rightarrow> if c = 0x2E then dropWhile isDigit r else r1)
      in (digitsValue (ip @ fp), exponentOf r2 - int (length fp)))"

text \<open>The same decimal without the zeros at the end of its digits.\<close>

function stripZeros :: "int \<Rightarrow> int \<Rightarrow> int \<times> int" where
  "stripZeros m e = (if m \<noteq> 0 \<and> m mod 10 = 0 then stripZeros (m div 10) (e + 1) else (m, e))"
  by pat_completeness auto

termination stripZeros
  by (relation "measure (\<lambda>(m, e). nat \<bar>m\<bar>)") auto

declare stripZeros.simps [simp del]

text \<open>
  The Number that a number token denotes: a zero with the sign of the token when the
  digits are all zeros, and the host's rounding of the decimal otherwise.
\<close>

definition numberOfToken :: "rounding \<Rightarrow> jsstring \<Rightarrow> jsnumber" where
  "numberOfToken rnd t =
     (let neg = (case t of [] \<Rightarrow> False | c # r \<Rightarrow> c = 0x2D);
          u = (if neg then tl t else t)
      in case unsignedDecimal u of
           (m, e) \<Rightarrow>
             if m = 0 then (if neg then NegZero else Decimal 0 0)
             else (case stripZeros m e of
                     (m1, e1) \<Rightarrow> rnd (if neg then - m1 else m1) e1))"

definition parseNumber :: "rounding \<Rightarrow> jsstring \<Rightarrow> (json \<times> jsstring) option" where
  "parseNumber rnd s =
     (let t = takeWhile isNumChar s in
      if isJsonNumber t then Some (JsonNumber (numberOfToken rnd t), dropWhile isNumChar s)
      else None)"

definition wrapResult :: "('a \<Rightarrow> json) \<Rightarrow> ('a \<times> jsstring) option \<Rightarrow> (json \<times> jsstring) option" where
  "wrapResult f r = (case r of None \<Rightarrow> None | Some (x, rest) \<Rightarrow> Some (f x, rest))"

text \<open>
  The elements of an array after the first token is known not to be the closing bracket:
  a value, then a comma and the rest, or the closing bracket. \<open>pv\<close> parses one value;
  each round takes at least one character, so a count of rounds up to the length of
  the input is never the reason for a failure.
\<close>

fun elementsLoop ::
  "(jsstring \<Rightarrow> (json \<times> jsstring) option) \<Rightarrow> nat \<Rightarrow> jsstring \<Rightarrow> (json list \<times> jsstring) option" where
  "elementsLoop pv 0 s = None"
| "elementsLoop pv (Suc k) s =
     (case pv (skipWs s) of
        None \<Rightarrow> None
      | Some (v, r) \<Rightarrow>
          (case skipWs r of
             [] \<Rightarrow> None
           | c # r1 \<Rightarrow>
               if c = 0x2C then
                 (case elementsLoop pv k r1 of
                    None \<Rightarrow> None
                  | Some (vs, r2) \<Rightarrow> Some (v # vs, r2))
               else if c = 0x5D then Some ([v], r1)
               else None))"

fun membersLoop ::
  "(jsstring \<Rightarrow> (json \<times> jsstring) option) \<Rightarrow> nat \<Rightarrow> jsstring \<Rightarrow>
   ((jsstring \<times> json) list \<times> jsstring) option" where
  "membersLoop pv 0 s = None"
| "membersLoop pv (Suc k) s =
     (case skipWs s of
        [] \<Rightarrow> None
      | q # s1 \<Rightarrow>
          if q \<noteq> 0x22 then None
          else (case parseChars s1 of
                  None \<Rightarrow> None
                | Some (key, s2) \<Rightarrow>
                    (case skipWs s2 of
                       [] \<Rightarrow> None
                     | colon # s3 \<Rightarrow>
                         if colon \<noteq> 0x3A then None
                         else (case pv (skipWs s3) of
                                 None \<Rightarrow> None
                               | Some (v, r) \<Rightarrow>
                                   (case skipWs r of
                                      [] \<Rightarrow> None
                                    | c # r1 \<Rightarrow>
                                        if c = 0x2C then
                                          (case membersLoop pv k r1 of
                                             None \<Rightarrow> None
                                           | Some (ms, r2) \<Rightarrow> Some ((key, v) # ms, r2))
                                        else if c = 0x7D then Some ([(key, v)], r1)
                                        else None)))))"


text \<open>
  The keys of an object are enumerated with the array indices first, in ascending
  numeric order, and the other keys after them in the order of their creation. An
  array index is the canonical text of an integer from 0 to \<open>2 ^ 32 - 2\<close>.
\<close>

definition isArrayIndex :: "jsstring \<Rightarrow> bool" where
  "isArrayIndex k =
     ((k = [0x30] \<or> (k \<noteq> [] \<and> list_all isDigit k \<and> hd k \<noteq> 0x30)) \<and> digitsValue k < 4294967295)"

text \<open>A new array index goes before the first key that is no smaller array index.\<close>

fun insertIndex :: "jsstring \<times> json \<Rightarrow> (jsstring \<times> json) list \<Rightarrow> (jsstring \<times> json) list" where
  "insertIndex m [] = [m]"
| "insertIndex m (p # ps) =
     (if isArrayIndex (fst p) \<and> digitsValue (fst p) < digitsValue (fst m) then p # insertIndex m ps
      else m # p # ps)"

text \<open>
  Defining the parsed properties on the new object in their order: a key that is there
  already keeps its place and takes the new value, a new key takes its place in the
  enumeration order.
\<close>

definition defineProperty :: "(jsstring \<times> json) list \<Rightarrow> jsstring \<times> json \<Rightarrow> (jsstring \<times> json) list" where
  "defineProperty ms m =
     (if fst m \<in> fst ` set ms then map (\<lambda>p. if fst p = fst m then m else p) ms
      else if isArrayIndex (fst m) then insertIndex m ms
      else ms @ [m])"

definition objectOf :: "(jsstring \<times> json) list \<Rightarrow> json" where
  "objectOf ms = JsonObject (foldl defineProperty [] ms)"

text \<open>
  One value at the head of the input (which starts with its first token), with the
  nesting that is still allowed: \<open>None\<close> is a syntax error.
\<close>

primrec parseValue :: "rounding \<Rightarrow> nat \<Rightarrow> jsstring \<Rightarrow> (json \<times> jsstring) option" where
  "parseValue rnd 0 s = None"
| "parseValue rnd (Suc d) s =
     (case s of
        [] \<Rightarrow> None
      | c # t \<Rightarrow>
          if c = 0x5B then
            (case skipWs t of
               [] \<Rightarrow> None
             | c1 # t1 \<Rightarrow>
                 if c1 = 0x5D then Some (JsonArray [], t1)
                 else wrapResult JsonArray (elementsLoop (parseValue rnd d) (length t) t))
          else if c = 0x7B then
            (case skipWs t of
               [] \<Rightarrow> None
             | c1 # t1 \<Rightarrow>
                 if c1 = 0x7D then Some (JsonObject [], t1)
                 else wrapResult objectOf (membersLoop (parseValue rnd d) (length t) t))
          else if c = 0x22 then wrapResult JsonString (parseChars t)
          else if take 4 s = js ''null'' then Some (JsonNull, drop 4 s)
          else if take 4 s = js ''true'' then Some (JsonBool True, drop 4 s)
          else if take 5 s = js ''false'' then Some (JsonBool False, drop 5 s)
          else parseNumber rnd s)"

text \<open>
  \<open>JSON.parse(text)\<close> on a host with the rounding \<open>rnd\<close>: one value with nothing but white
  space around it. The nesting of a text is less than its length.
\<close>

definition JSON_parse :: "rounding \<Rightarrow> jsstring \<Rightarrow> js_error + json" where
  "JSON_parse rnd text =
     (case parseValue rnd (length text) (skipWs text) of
        None \<Rightarrow> Inl (SyntaxError ''Unexpected token in JSON'')
      | Some (v, rest) \<Rightarrow>
          if skipWs rest = [] then Inr v else Inl (SyntaxError ''Unexpected token in JSON''))"

subsection \<open>The values that JSON carries exactly\<close>

text \<open>The keys of an object in their enumeration order: the array indices first, ascending.\<close>

fun keysInOrder :: "jsstring list \<Rightarrow> bool" where
  "keysInOrder [] = True"
| "keysInOrder [k] = True"
| "keysInOrder (k1 # k2 # ks) =
     ((isArrayIndex k2 \<longrightarrow> isArrayIndex k1 \<and> digitsValue k1 < digitsValue k2)
      \<and> keysInOrder (k2 # ks))"

text \<open>
  A value of the model stands for a JavaScript value that JSON carries exactly when
  its numbers are finite Numbers of the host other than -0 and each of its objects
  lists its properties in their enumeration order, every key once.
\<close>

fun wf_json :: "rounding \<Rightarrow> json \<Rightarrow> bool"
and wf_elements :: "rounding \<Rightarrow> json list \<Rightarrow> bool"
and wf_members :: "rounding \<Rightarrow> (jsstring \<times> json) list \<Rightarrow> bool" where
  "wf_json rnd JsonNull = True"
| "wf_json rnd (JsonBool b) = True"
| "wf_json rnd (JsonNumber x) = isExactNumber rnd x"
| "wf_json rnd (JsonString s) = True"
| "wf_json rnd (JsonArray vs) = wf_elements rnd vs"
| "wf_json rnd (JsonObject ms) =
     (distinct (map fst ms) \<and> keysInOrder (map fst ms) \<and> wf_members rnd ms)"
| "wf_elements rnd [] = True"
| "wf_elements rnd (v # vs) = (wf_json rnd v \<and> wf_elements rnd vs)"
| "wf_members rnd [] = True"
| "wf_members rnd ((k, v) # ms) = (wf_json rnd v \<and> wf_members rnd ms)"

text \<open>The nesting of arrays and objects in a value.\<close>

fun depth :: "json \<Rightarrow> nat"
and depthElements :: "json list \<Rightarrow> nat"
and depthMembers :: "(jsstring \<times> json) list \<Rightarrow> nat" where
  "depth JsonNull = 0"
| "depth (JsonBool b) = 0"
| "depth (JsonNumber x) = 0"
| "depth (JsonString s) = 0"
| "depth (JsonArray vs) = Suc (depthElements vs)"
| "depth (JsonObject ms) = Suc (depthMembers ms)"
| "depthElements [] = 0"
| "depthElements (v # vs) = max (depth v) (depthElements vs)"
| "depthMembers [] = 0"
| "depthMembers ((k, v) # ms) = max (depth v) (depthMembers ms)"

section \<open>The shoebox (src/ember-app.js, src/document.js)\<close>

text \<open>
  The table \<open>JSON_ESCAPE\<close> (it has an entry for the five characters that the regular
  expression matches, and is looked up for no other) and \<open>JSON_ESCAPE_REGEXP\<close>, the
  class of the characters U+2028, U+2029, \<open>&\<close>, \<open>>\<close> and \<open><\<close>.
\<close>

definition JSON_ESCAPE :: "jschar \<Rightarrow> jsstring" where
  "JSON_ESCAPE c =
     (if c = 0x26 then [0x5C, 0x75, 0x30, 0x30, 0x32, 0x36]
      else if c = 0x3E then [0x5C, 0x75, 0x30, 0x30, 0x33, 0x65]
      else if c = 0x3C then [0x5C, 0x75, 0x30, 0x30, 0x33, 0x63]
      else if c = 0x2028 then [0x5C, 0x75, 0x32, 0x30, 0x32, 0x38]
      else if c = 0x2029 then [0x5C, 0x75, 0x32, 0x30, 0x32, 0x39]
      else [])"

definition matchesEscapeRegExp :: "jschar \<Rightarrow> bool" where
  "matchesEscapeRegExp c = (c = 0x2028 \<or> c = 0x2029 \<or> c = 0x26 \<or> c = 0x3E \<or> c = 0x3C)"

text \<open>\<open>string.replace(JSON_ESCAPE_REGEXP, match => JSON_ESCAPE[match])\<close>\<close>

definition escapeJSONString :: "jsstring \<Rightarrow> jsstring" where
  "escapeJSONString s = concat (map (\<lambda>c. if matchesEscapeRegExp c then JSON_ESCAPE c else [c]) s)"

text \<open>
  A script element of the document, with its \<open>type\<close> and \<open>id\<close> attributes and the raw
  section that \<open>createRawHTMLSection\<close> makes of the text it is given.
\<close>

record script_element =
  typeAttribute :: jsstring
  idAttribute :: jsstring
  rawSection :: jsstring

text \<open>
  \<open>createShoebox\<close>: nothing without a shoebox; otherwise one script element per key,
  appended to the body in the order of the keys.
\<close>

definition shoeboxElement :: "jsstring \<times> json \<Rightarrow> script_element" where
  "shoeboxElement kv =
     (let textValue = escapeJSONString (JSON_stringify (snd kv)) in
      \<lparr>typeAttribute = js ''ssr/shoebox'', idAttribute = js ''shoebox-'' @ fst kv,
       rawSection = textValue\<rparr>)"

definition createShoebox ::
  "script_element list \<Rightarrow> (jsstring \<times> json) list option \<Rightarrow> script_element list" where
  "createShoebox body shoebox =
     (case shoebox of None \<Rightarrow> body | Some entries \<Rightarrow> body @ map shoeboxElement entries)"

section \<open>The sandbox pool\<close>

text \<open>
  Modelled from the spec: the class \<open>Queue\<close> of \<open>src/utils/queue.js\<close>, which is not among
  the sources. The spec gives the pool a maximum size with at most that many entries
  outstanding, first-in first-out order, a \<open>dequeue\<close> that pops the oldest entry or, on an
  empty queue, builds a fresh one on the spot (the cold path), and an \<open>enqueue\<close> that
  schedules one build; as in \<open>buildSandboxQueue\<close> and \<open>visit\<close>, it is the caller that
  calls \<open>enqueue\<close>. An entry is the promise of the build, here its outcome; \<open>builderFn\<close>
  is the outcome of the build that the builder function starts.
\<close>

record 'a queue =
  items :: "'a list"
  maxSize :: nat
  builderFn :: 'a

definition newQueue :: "'a \<Rightarrow> nat \<Rightarrow> 'a queue" where
  "newQueue builder k = \<lparr>items = [], maxSize = k, builderFn = builder\<rparr>"

definition enqueue :: "'a queue \<Rightarrow> 'a queue" where
  "enqueue q = (if length (items q) < maxSize q then q\<lparr>items := items q @ [builderFn q]\<rparr> else q)"

text \<open>\<open>{ item, isItemPreBuilt }\<close> and the queue that is left.\<close>

definition dequeue :: "'a queue \<Rightarrow> ('a \<times> bool) \<times> 'a queue" where
  "dequeue q = (case items q of
                  [] \<Rightarrow> ((builderFn q, False), q)
                | x # xs \<Rightarrow> ((x, True), q\<lparr>items := xs\<rparr>))"

section \<open>EmberApp: constructor and visit (src/ember-app.js)\<close>

record ember_app =
  sandboxQueue :: "build queue"

text \<open>\<open>for (let i = 0; i < maxSandboxQueueSize; i++) queue.enqueue()\<close>\<close>

definition buildSandboxQueue :: "build \<Rightarrow> nat \<Rightarrow> build queue" where
  "buildSandboxQueue builder maxSandboxQueueSize =
     ((enqueue ^^ maxSandboxQueueSize) (newQueue builder maxSandboxQueueSize))"

text \<open>
  The constructor, from the build that \<open>buildNewApplicationInstance\<close> performs and
  \<open>options.maxSandboxQueueSize\<close> (\<open>None\<close> when the option is not given):
  \<open>options.maxSandboxQueueSize || 1\<close>.
\<close>

definition newEmberApp :: "build \<Rightarrow> nat option \<Rightarrow> ember_app" where
  "newEmberApp builder maxSandboxQueueSize =
     \<lparr>sandboxQueue = buildSandboxQueue builder
        (case maxSandboxQueueSize of None \<Rightarrow> 1 | Some k \<Rightarrow> if k = 0 then 1 else k)\<rparr>"

text \<open>
  The options of a visit that the pipeline reads. \<open>destroyAppInstanceInMs\<close> is documented
  as an integer, on which \<open>parseInt(_, 10)\<close> is the identity; without the option
  \<open>parseInt\<close> gives NaN, which is not above 0. \<open>opt_resilient = None\<close> is an options object
  that has no \<open>resilient\<close> property.
\<close>

record visit_options =
  destroyAppInstanceInMs :: "int option"
  disableShoebox :: bool
  opt_resilient :: "jsval option"

text \<open>
  Modelled from the spec: the class \<open>Result\<close> of \<open>src/result.js\<close>, which is not among the
  sources, as far as \<open>visit\<close> uses it. The spec: a result carries an optional error and
  the analytics, it is finalized exactly once, and destroying the application instance
  is guarded by an internal destroyed flag so that it runs at most once; \<open>_destroy()\<close>
  tells its caller whether this call did the destruction.
\<close>

record visit_result =
  error :: "js_error option"
  isDestroyed :: bool
  finalized :: bool
  usedPrebuiltSandbox :: bool
  sandbox :: app_context
  body :: "script_element list"

definition newResult :: "app_context \<Rightarrow> visit_result" where
  "newResult ctx = \<lparr>error = None, isDestroyed = False, finalized = False,
                     usedPrebuiltSandbox = False, sandbox = ctx, body = []\<rparr>"

definition result_finalize :: "visit_result \<Rightarrow> visit_result" where
  "result_finalize r = r\<lparr>finalized := True\<rparr>"

definition result_destroy :: "visit_result \<Rightarrow> bool \<times> visit_result" where
  "result_destroy r = (\<not> isDestroyed r, r\<lparr>isDestroyed := True\<rparr>)"

fun show_nat :: "nat \<Rightarrow> string" where
  "show_nat n = (if n < 10 then [char_of (48 + n)] else show_nat (n div 10) @ [char_of (48 + n mod 10)])"

definition show_int :: "int \<Rightarrow> string" where
  "show_int i = (if i < 0 then ''-'' @ show_nat (nat (- i)) else show_nat (nat i))"

definition forcedDestructionError :: "int \<Rightarrow> js_error" where
  "forcedDestructionError ms =
     Error (''App instance was forcefully destroyed in '' @ show_int ms @ ''ms'')"

text \<open>
  A visit is an asynchronous function: it runs up to an \<open>await\<close> and goes on when the
  awaited promise settles. \<open>visit_begin\<close> is the part up to \<open>await this._visit(...)\<close>:
  the dequeue, the wait for the sandbox, the new result, the timer. From there two
  things can happen, in any order: the timer fires, or the promise of \<open>_visit\<close> (the boot
  of the application, the visit of the route and the deferred-rendering promise)
  settles: it is rejected with an error (\<open>VisitSettles (Inl e)\<close>), or it is fulfilled,
  and \<open>fastbootInfo.shoebox\<close> is then what the application has put there
  (\<open>VisitSettles (Inr shoebox)\<close>, \<open>None\<close> while there is none). What the application does
  inside \<open>_visit\<close> is not part of the repository; it decides which events arrive, and
  when. The values of a shoebox are values that JSON carries.
\<close>

datatype visit_event =
    TimerFires
  | VisitSettles "js_error + (jsstring \<times> json) list option"

record visit_state =
  result :: visit_result
  timerMs :: "int option"
  shoeboxDisabled :: bool
  returned :: bool

datatype 'a promise = Pending | Rejected js_error | Fulfilled 'a

text \<open>\<open>const { app, context } = appContext\<close> when the build has returned \<open>null\<close>.\<close>

definition nullContextError :: js_error where
  "nullContextError =
     TypeError (''Cannot destructure property '' @ quoted ''app'' @ '' of '' @
                quoted ''appContext'' @ '' as it is null.'')"

definition visit_begin :: "ember_app \<Rightarrow> visit_options \<Rightarrow> visit_state promise \<times> ember_app" where
  "visit_begin app options =
     (case dequeue (sandboxQueue app) of
        ((item, isItemPreBuilt), q) \<Rightarrow>
          (case item of
             None \<Rightarrow> (Pending, app\<lparr>sandboxQueue := q\<rparr>)
           | Some (Inl e) \<Rightarrow> (Rejected e, app\<lparr>sandboxQueue := q\<rparr>)
           | Some (Inr None) \<Rightarrow> (Rejected nullContextError, app\<lparr>sandboxQueue := q\<rparr>)
           | Some (Inr (Some ctx)) \<Rightarrow>
               (Fulfilled
                  \<lparr>result = (newResult ctx)\<lparr>usedPrebuiltSandbox := isItemPreBuilt\<rparr>,
                   timerMs = (case destroyAppInstanceInMs options of
                                None \<Rightarrow> None
                              | Some ms \<Rightarrow> if ms > 0 then Some ms else None),
                   shoeboxDisabled = disableShoebox options,
                   returned = False\<rparr>,
                app\<lparr>sandboxQueue := q\<rparr>)))"

text \<open>
  One event. The timer callback destroys the instance and, when it was this call that
  destroyed it, sets the error. When \<open>_visit\<close> settles the function goes on in the \<open>try\<close>
  block: the shoebox is written unless it is disabled, or \<open>catch\<close> sets the error; then
  \<open>finally\<close>: finalize, destroy, clear the timer, enqueue a new build; then the function
  returns the result. A cleared or fired timer does not fire, and a function that has
  returned is not resumed.
\<close>

fun visit_step :: "ember_app \<times> visit_state \<Rightarrow> visit_event \<Rightarrow> ember_app \<times> visit_state" where
  "visit_step (app, s) TimerFires =
     (case timerMs s of
        None \<Rightarrow> (app, s)
      | Some ms \<Rightarrow>
          (case result_destroy (result s) of
             (destroyedNow, r) \<Rightarrow>
               (app, s\<lparr>result := (if destroyedNow then r\<lparr>error := Some (forcedDestructionError ms)\<rparr>
                                    else r),
                        timerMs := None\<rparr>)))"
| "visit_step (app, s) (VisitSettles outcome) =
     (if returned s then (app, s)
      else let r1 = (case outcome of
                       Inr shoebox \<Rightarrow>
                         if shoeboxDisabled s then result s
                         else (result s)\<lparr>body := createShoebox (body (result s)) shoebox\<rparr>
                     | Inl e \<Rightarrow> (result s)\<lparr>error := Some e\<rparr>);
               r2 = result_finalize r1;
               r3 = snd (result_destroy r2)
           in (app\<lparr>sandboxQueue := enqueue (sandboxQueue app)\<rparr>,
               s\<lparr>result := r3, timerMs := None, returned := True\<rparr>))"

definition visit_promise :: "visit_state \<Rightarrow> visit_result promise" where
  "visit_promise s = (if returned s then Fulfilled (result s) else Pending)"

text \<open>
  \<open>EmberApp.visit\<close> on its own, with the events that reach it in their order: the state
  of the promise it returned, and the application afterwards.
\<close>

definition app_visit ::
  "ember_app \<Rightarrow> visit_options \<Rightarrow> visit_event list \<Rightarrow> visit_result promise \<times> ember_app" where
  "app_visit app options events =
     (case visit_begin app options of
        (Pending, app') \<Rightarrow> (Pending, app')
      | (Rejected e, app') \<Rightarrow> (Rejected e, app')
      | (Fulfilled s, app') \<Rightarrow>
          (case foldl visit_step (app', s) events of
             (app'', s') \<Rightarrow> (visit_promise s', app'')))"

section \<open>EmberSsr (src/ember-ssr.js)\<close>

record ember_ssr =
  resilient :: bool
  emberApp :: ember_app

text \<open>
  The constructor: \<open>'resilient' in options ? Boolean(options.resilient) : false\<close>, then
  \<open>_buildEmberApp\<close>, which refuses options without a path.
\<close>

definition newEmberSsr ::
  "jsval option \<Rightarrow> paths_arg \<Rightarrow> build \<Rightarrow> nat option \<Rightarrow> js_error + ember_ssr" where
  "newEmberSsr resilientOption paths builder maxSandboxQueueSize =
     (case newSsrPaths paths of
        Inl e \<Rightarrow> Inl e
      | Inr p \<Rightarrow>
          if \<not> hasPath p then Inl (Error ''You must instantiate EmberSsr with a distPath option'')
          else Inr \<lparr>resilient = (case resilientOption of None \<Rightarrow> False | Some v \<Rightarrow> truthy v),
                    emberApp = newEmberApp builder maxSandboxQueueSize\<rparr>)"

text \<open>
  \<open>visit\<close>: \<open>'resilient' in options ? options.resilient : this.resilient\<close>, the visit of
  the application, and \<open>if (!resilient && result?.error) throw result.error\<close>.
\<close>

definition ssr_visit ::
  "ember_ssr \<Rightarrow> visit_options \<Rightarrow> visit_event list \<Rightarrow> visit_result promise \<times> ember_ssr" where
  "ssr_visit ssr options events =
     (let isResilient = (case opt_resilient options of
                           None \<Rightarrow> resilient ssr
                         | Some v \<Rightarrow> truthy v)
      in case app_visit (emberApp ssr) options events of
           (Pending, app') \<Rightarrow> (Pending, ssr\<lparr>emberApp := app'\<rparr>)
         | (Rejected e, app') \<Rightarrow> (Rejected e, ssr\<lparr>emberApp := app'\<rparr>)
         | (Fulfilled r, app') \<Rightarrow>
             (case error r of
                Some e \<Rightarrow> if \<not> isResilient then (Rejected e, ssr\<lparr>emberApp := app'\<rparr>)
                          else (Fulfilled r, ssr\<lparr>emberApp := app'\<rparr>)
              | None \<Rightarrow> (Fulfilled r, ssr\<lparr>emberApp := app'\<rparr>)))"

section \<open>The supervisor and its workers (index.js, src/worker.js)\<close>

text \<open>
  The messages of the control channel: \<open>{ event: 'reload', ... }\<close> with the path
  properties it carries, \<open>{ event: 'shutdown' }\<close>, \<open>{ event: 'error', error }\<close> and
  \<open>{ event: 'http-online' }\<close>.
\<close>

datatype message = Reload path_options | Shutdown | ErrorEvent string | HttpOnline

record worker =
  workerPaths :: ssr_paths
  workerError :: "string option"
  reloads :: nat

text \<open>
  \<open>Worker.handleMessage\<close>: the worker goes on in a new state, or its process exits with a
  code. A reload sets the paths from the message, falling back to the current ones, and
  rebuilds the application.
\<close>

datatype worker_effect = Continues worker | Exits int

fun handleMessage :: "worker \<Rightarrow> message \<Rightarrow> worker_effect" where
  "handleMessage w (Reload m) =
     Continues (w\<lparr>workerPaths := assignPaths
                     \<lparr>opt_distPath = JUndefined,
                      opt_clientPath = js_or (opt_clientPath m) (clientPath (workerPaths w)),
                      opt_ssrPath = js_or (opt_ssrPath m) (ssrPath (workerPaths w))\<rparr>,
                  reloads := Suc (reloads w)\<rparr>)"
| "handleMessage w (ErrorEvent e) = Continues (w\<lparr>workerError := Some e\<rparr>)"
| "handleMessage w Shutdown = Exits 0"
| "handleMessage w HttpOnline = Continues w"

text \<open>
  The supervisor: the live workers by pid (\<open>cluster.workers\<close>), the pid that the next fork
  gets, the lines written to the ui, and the messages sent to workers.
\<close>

record supervisor =
  workers :: "nat list"
  nextPid :: nat
  uiLines :: "string list"
  outbox :: "(nat \<times> message) list"

definition forkWorker :: "supervisor \<Rightarrow> supervisor" where
  "forkWorker sv =
     sv\<lparr>workers := workers sv @ [nextPid sv],
         nextPid := Suc (nextPid sv),
         uiLines := uiLines sv @ [''forked worker '' @ show_nat (nextPid sv), ''worker online'']\<rparr>"

definition forkWorkers :: "nat \<Rightarrow> supervisor \<Rightarrow> supervisor" where
  "forkWorkers workerCount sv = (forkWorker ^^ workerCount) sv"

definition broadcast :: "message \<Rightarrow> supervisor \<Rightarrow> supervisor" where
  "broadcast m sv = sv\<lparr>outbox := outbox sv @ map (\<lambda>pid. (pid, m)) (workers sv)\<rparr>"

definition stop :: "supervisor \<Rightarrow> supervisor" where
  "stop sv = broadcast Shutdown sv"

text \<open>
  The line that the \<open>exit\<close> handler writes, from the exit code and the signal that Node
  passes (each a value or \<open>null\<close>): \<open>if (signal) ... else if (code !== 0) ... else ...\<close>.
\<close>

definition exitLine :: "int option \<Rightarrow> string option \<Rightarrow> string" where
  "exitLine code signal =
     (if present signal then ''worker was killed by signal: '' @ the signal
      else if code \<noteq> Some 0
           then ''worker exited with error code: '' @ (case code of None \<Rightarrow> ''null'' | Some c \<Rightarrow> show_int c)
      else ''worker exited'')"

text \<open>The handler of the \<open>exit\<close> event that \<open>forkWorker\<close> registers on each worker.\<close>

definition exitHandler :: "int option \<Rightarrow> string option \<Rightarrow> supervisor \<Rightarrow> supervisor" where
  "exitHandler code signal sv = forkWorker (sv\<lparr>uiLines := uiLines sv @ [exitLine code signal]\<rparr>)"

text \<open>A worker process exits: the cluster drops it from its workers and emits \<open>exit\<close>.\<close>

definition workerExit :: "nat \<Rightarrow> int option \<Rightarrow> string option \<Rightarrow> supervisor \<Rightarrow> supervisor" where
  "workerExit pid code signal sv =
     exitHandler code signal (sv\<lparr>workers := removeAll pid (workers sv)\<rparr>)"

definition initial_supervisor :: supervisor where
  "initial_supervisor = \<lparr>workers = [], nextPid = 1, uiLines = [], outbox = []\<rparr>"

definition demo_worker :: worker where
  "demo_worker = \<lparr>workerPaths = assignPaths \<lparr>opt_distPath = JStr ''/srv/dist'',
                                                opt_clientPath = JUndefined,
                                                opt_ssrPath = JUndefined\<rparr>,
                   workerError = None, reloads = 0\<rparr>"

section \<open>Serialized regular expressions (src/regexp.js)\<close>

text \<open>
  A regular expression object, as far as the code reads it: its \<open>source\<close> and its
  \<open>flags\<close>. An entry of the host whitelist is a string or a regular expression.
\<close>

record regexp =
  source :: jsstring
  flags :: jsstring

datatype entry = EString jsstring | ERegExp regexp

text \<open>
  \<open>matchRegex = /^regexp:(.)((?:\\\1|[^\1])+)\1([^\1]*)$/\<close>, matched as the backtracking
  matcher of the language does. \<open>(.)\<close> takes one code unit that is not a line terminator:
  the delimiter \<open>d\<close>. Inside a character class \<open>\1\<close> is not a reference to the first
  group: it is the escape for the code unit 1, so \<open>[^\1]\<close> is any code unit but U+0001.
  The second group repeats, as often as it can, the alternatives "a backslash and then
  the delimiter" and "any code unit but U+0001", in this order; then the delimiter and
  the third group (code units other than U+0001, up to the end) must follow, and the
  matcher gives back repetitions until they do.
\<close>

definition isLineTerminator :: "jschar \<Rightarrow> bool" where
  "isLineTerminator c = (c = 0x0A \<or> c = 0x0D \<or> c = 0x2028 \<or> c = 0x2029)"

text \<open>\<open>\1([^\1]*)$\<close> on the rest of the input: the flags.\<close>

definition matchTail :: "jschar \<Rightarrow> jsstring \<Rightarrow> jsstring option" where
  "matchTail d s = (case s of
                      [] \<Rightarrow> None
                    | c # fl \<Rightarrow> if c = d \<and> (\<forall>x \<in> set fl. x \<noteq> 1) then Some fl else None)"

definition orElse :: "'a option \<Rightarrow> 'a option \<Rightarrow> 'a option" where
  "orElse a b = (case a of Some x \<Rightarrow> Some x | None \<Rightarrow> b)"

text \<open>Leaving the repetition: it must have run at least once.\<close>

definition matchRest :: "jschar \<Rightarrow> jsstring \<Rightarrow> jsstring \<Rightarrow> (jsstring \<times> jsstring) option" where
  "matchRest d acc s =
     (if acc \<noteq> [] then (case matchTail d s of Some fl \<Rightarrow> Some (acc, fl) | None \<Rightarrow> None)
      else None)"

text \<open>
  The repetition, with what the second group has taken so far: first alternative, else
  second alternative, else leave.
\<close>

fun matchBody :: "jschar \<Rightarrow> jsstring \<Rightarrow> jsstring \<Rightarrow> (jsstring \<times> jsstring) option" where
  "matchBody d acc [] = matchRest d acc []"
| "matchBody d acc [c] =
     orElse (if c \<noteq> 1 then matchBody d (acc @ [c]) [] else None)
            (matchRest d acc [c])"
| "matchBody d acc (c1 # c2 # t) =
     orElse (if c1 = 0x5C \<and> c2 = d then matchBody d (acc @ [c1, c2]) t else None)
       (orElse (if c1 \<noteq> 1 then matchBody d (acc @ [c1]) (c2 # t) else None)
               (matchRest d acc (c1 # c2 # t)))"

text \<open>\<open>string.match(matchRegex)\<close>: the second and third group, or \<open>None\<close> for \<open>null\<close>.\<close>

definition matchRegex :: "jsstring \<Rightarrow> (jsstring \<times> jsstring) option" where
  "matchRegex s =
     (if take 7 s = js ''regexp:'' then
        (case drop 7 s of
           [] \<Rightarrow> None
         | d # rest \<Rightarrow> if isLineTerminator d then None else matchBody d [] rest)
      else None)"

fun matchesSerializedRegExp :: "entry \<Rightarrow> (jsstring \<times> jsstring) option" where
  "matchesSerializedRegExp (EString s) = matchRegex s"
| "matchesSerializedRegExp (ERegExp r) = None"

fun serializeRegExp :: "entry \<Rightarrow> entry" where
  "serializeRegExp (ERegExp regex) = EString (js ''regexp:/'' @ source regex @ js ''/'' @ flags regex)"
| "serializeRegExp (EString s) = EString s"

text \<open>
  \<open>new RegExp(pattern, flags)\<close> raises a SyntaxError unless the texts are a pattern and
  flags of the language; which texts are is not decided here: \<open>valid\<close> is a parameter.
  The source of the new object is the pattern (for a pattern that has no unescaped
  \<open>/\<close> and no line terminator, and is not empty; the constructor escapes those).
\<close>

definition newRegExp :: "(jsstring \<Rightarrow> jsstring \<Rightarrow> bool) \<Rightarrow> jsstring \<Rightarrow> jsstring \<Rightarrow> js_error + regexp" where
  "newRegExp valid pattern fl =
     (if valid pattern fl then Inr \<lparr>source = pattern, flags = fl\<rparr>
      else Inl (SyntaxError ''Invalid regular expression''))"

definition deserializeRegExp :: "(jsstring \<Rightarrow> jsstring \<Rightarrow> bool) \<Rightarrow> entry \<Rightarrow> js_error + entry" where
  "deserializeRegExp valid e =
     (case matchesSerializedRegExp e of
        Some (pattern, fl) \<Rightarrow>
          (case newRegExp valid pattern fl of Inl err \<Rightarrow> Inl err | Inr regex \<Rightarrow> Inr (ERegExp regex))
      | None \<Rightarrow> Inr e)"

section \<open>A concrete host for the examples\<close>

definition demo_segments :: "string \<Rightarrow> string list" where
  "demo_segments p =
     foldl (\<lambda>acc seg. if seg = [] \<or> seg = ''.'' then acc
                      else if seg = ''..'' then butlast acc else acc @ [seg])
       [] (split_on CHR ''/'' p)"

definition demo_normalize :: "string \<Rightarrow> string" where
  "demo_normalize p = ''/'' @ join_with ''/'' (demo_segments p)"

definition demo_resolve :: "string \<Rightarrow> string \<Rightarrow> string" where
  "demo_resolve a b =
     (if startsWith b ''/'' then demo_normalize b else demo_normalize (a @ ''/'' @ b))"

definition demo_dirname :: "string \<Rightarrow> string" where
  "demo_dirname p = ''/'' @ join_with ''/'' (butlast (demo_segments p))"

definition plain_module :: module_source where
  "plain_module = \<lparr>staticImports = [], evalThrows = None, createSsrApp = ExpUndefined\<rparr>"

text \<open>
  An application in \<open>/srv/dist\<close> whose entry script imports a relative module and the
  package \<open>left-pad\<close>, which the host has installed in \<open>/srv/node_modules\<close>.
\<close>

definition demo_fs :: "string \<Rightarrow> fs_entry option" where
  "demo_fs =
     [''/srv/dist/app.js'' \<mapsto> File (Some \<lparr>staticImports = [''./util'', ''left-pad''],
                                             evalThrows = None,
                                             createSsrApp = ExpFunction None\<rparr>),
      ''/srv/dist/util'' \<mapsto> Directory,
      ''/srv/dist/util.js'' \<mapsto> File (Some plain_module),
      ''/srv/dist/util/index.js'' \<mapsto> File (Some plain_module),
      ''/srv/dist/bare.js'' \<mapsto> File (Some plain_module),
      ''/srv/node_modules/left-pad/index.js'' \<mapsto> File (Some plain_module)]"

definition demo_host :: host where
  "demo_host =
     \<lparr>fs = demo_fs, path_dirname = demo_dirname, path_resolve = demo_resolve,
      path_normalize = demo_normalize,
      require_resolve =
        (\<lambda>s. if s = ''left-pad'' then Inr ''/srv/node_modules/left-pad/index.js''
              else Inl (CodedError ''MODULE_NOT_FOUND'' s)),
      resolve_sync = (\<lambda>s b. Inl (CodedError ''MODULE_NOT_FOUND'' s)),
      host_require =
        (\<lambda>s. if s = ''left-pad'' then Inr s else Inl (CodedError ''MODULE_NOT_FOUND'' s))\<rparr>"

definition demo_build :: build where
  "demo_build = buildApp 3 demo_host [''/srv/dist/app.js'']"

definition demo_sandbox :: app_context where
  "demo_sandbox = AppContext [''/srv/dist/util/index.js'', ''/srv/node_modules/left-pad/index.js'',
                              ''/srv/dist/app.js'']"

text \<open>An artifact whose only entry script exports nothing.\<close>

definition bare_build :: build where
  "bare_build = buildApp 3 demo_host [''/srv/dist/bare.js'']"

definition no_options :: visit_options where
  "no_options = \<lparr>destroyAppInstanceInMs = None, disableShoebox = False, opt_resilient = None\<rparr>"

definition forced_options :: visit_options where
  "forced_options = \<lparr>destroyAppInstanceInMs = Some 50, disableShoebox = False, opt_resilient = None\<rparr>"

definition dist_only :: paths_arg where
  "dist_only = ArgObject \<lparr>opt_distPath = JStr ''/srv/dist'', opt_clientPath = JUndefined,
                           opt_ssrPath = JUndefined\<rparr>"

definition demo_ssr :: ember_ssr where
  "demo_ssr = \<lparr>resilient = False, emberApp = newEmberApp demo_build None\<rparr>"

text \<open>
  The rounding of the host where it is plain: a decimal of at most 15 digits inside the
  range of the normal numbers is the shortest text of the Number nearest to it, a
  decimal above the range gives an infinity, and one below it a zero. For the other
  decimals the examples do not say what the host gives; NaN, which no rounding gives,
  stands there.
\<close>

definition demo_rounding :: rounding where
  "demo_rounding m e =
     (let n = e + int (length (digitsOf \<bar>m\<bar>)) in
      if 309 < n then (if m < 0 then NegInfinity else PosInfinity)
      else if n \<le> - 324 then (if m < 0 then NegZero else Decimal 0 0)
      else if \<bar>m\<bar> < 1000000000000000 \<and> - 306 \<le> n \<and> n \<le> 308 then Decimal m e
      else NaN)"

text \<open>A shoebox value with markup, separators, surrogates, numbers and nesting.\<close>

definition demo_value :: json where
  "demo_value =
     JsonObject
       [(js ''7'', JsonNumber (Decimal 0 0)),
        (js ''10'', JsonNumber (Decimal 5 (- 1))),
        (js ''title'', JsonString (js ''</script><b>Tom & Jerry</b>'' @ [0x2028, 0xD83D, 0xDE00, 0xDC00, 0x0A])),
        (js ''items'', JsonArray [JsonNumber (Decimal 1 0), JsonNumber (Decimal (- 25) 20), JsonNull,
                                   JsonNumber (Decimal 12345 (- 2)), JsonNumber (Decimal 12 3),
                                   JsonNumber (Decimal (- 1) (- 7)), JsonNumber (Decimal 123 (- 8)),
                                   JsonBool True, JsonArray [], JsonObject []]),
        (js ''007'', JsonNumber (Decimal 1 21))]"

section \<open>Properties\<close>

subsection \<open>SsrPaths\<close>

text \<open>
  C10. After constructing SsrPaths or calling setPaths with any combination of distPath,
  clientPath and ssrPath (a path counts as provided when it is a truthy value, which is
  how the code tests it): clientPath is the provided clientPath, else distPath, else
  ssrPath; ssrPath is the provided ssrPath, else distPath, else clientPath; hasPath is
  true exactly when at least one of the three was provided; and providing distPath alone
  makes that path both the client path and the server-render path.
\<close>

theorem setPaths_fallbacks:
  "\<exists>p. setPaths (ArgObject opts) = Inr p \<and> newSsrPaths (ArgObject opts) = Inr p
     \<and> clientPath p = (if truthy (opt_clientPath opts) then opt_clientPath opts
                       else if truthy (opt_distPath opts) then opt_distPath opts
                       else opt_ssrPath opts)
     \<and> ssrPath p = (if truthy (opt_ssrPath opts) then opt_ssrPath opts
                    else if truthy (opt_distPath opts) then opt_distPath opts
                    else opt_clientPath opts)
     \<and> hasPath p = (truthy (opt_distPath opts) \<or> truthy (opt_clientPath opts)
                    \<or> truthy (opt_ssrPath opts))
     \<and> (truthy (opt_distPath opts) \<and> \<not> truthy (opt_clientPath opts)
          \<and> \<not> truthy (opt_ssrPath opts)
          \<longrightarrow> clientPath p = opt_distPath opts \<and> ssrPath p = opt_distPath opts)
     \<and> (\<exists>p0. newSsrPaths ArgUndefined = Inr p0 \<and> \<not> hasPath p0)"
  by (simp add: newSsrPaths_def assignPaths_def js_or_def empty_options_def)

theorem setPaths_fallbacks_witness:
  "\<exists>p. newSsrPaths (ArgObject \<lparr>opt_distPath = JStr ''/srv/dist'', opt_clientPath = JUndefined,
                                  opt_ssrPath = JNull\<rparr>) = Inr p
     \<and> clientPath p = JStr ''/srv/dist'' \<and> ssrPath p = JStr ''/srv/dist'' \<and> hasPath p"
  using setPaths_fallbacks [of "\<lparr>opt_distPath = JStr ''/srv/dist'', opt_clientPath = JUndefined,
                                  opt_ssrPath = JNull\<rparr>"]
  by simp

subsection \<open>Relative imports\<close>







subsection \<open>Building without an application factory\<close>

lemma nullishAssign_not_function:
  "\<not> isFunction a \<Longrightarrow> \<not> isFunction b \<Longrightarrow> \<not> isFunction (nullishAssign a b)"
  by (auto simp: nullishAssign_def isFunction_def split: export.splits)

lemma evalScripts_without_factory:
  assumes "\<forall>script \<in> set scripts. script \<noteq> [] \<longrightarrow>
             (\<forall>tr. \<exists>tr' src. buildScript n h script script tr = Some (tr', Inr src)
                        \<and> evalThrows src = None \<and> \<not> isFunction (createSsrApp src))"
    and "\<not> isFunction factory"
  shows "\<exists>tr' f. evalScripts n h scripts factory tr = Some (tr', Inr (Some f)) \<and> \<not> isFunction f"
  using assms
proof (induction scripts arbitrary: factory tr)
  case Nil
  then show ?case by simp
next
  case (Cons script rest)
  show ?case
  proof (cases "script = []")
    case True
    then show ?thesis using Cons by simp
  next
    case False
    with Cons.prems(1) obtain tr' src where
      b: "buildScript n h script script tr = Some (tr', Inr src)"
      and e: "evalThrows src = None" and nf: "\<not> isFunction (createSsrApp src)"
      by (metis list.set_intros(1))
    have "\<exists>tr'' f. evalScripts n h rest (nullishAssign factory (createSsrApp src)) (tr' @ [script])
            = Some (tr'', Inr (Some f)) \<and> \<not> isFunction f"
      using Cons.IH [of "nullishAssign factory (createSsrApp src)" "tr' @ [script]"]
        Cons.prems nullishAssign_not_function [OF Cons.prems(2) nf]
      by simp
    then show ?thesis using False b e by simp
  qed
qed

text \<open>
  C4. When every entry script builds and evaluates and none of them exports a function
  under createSsrApp, buildApp raises no error: its promise is fulfilled with null, and
  there is no sandbox.
\<close>

theorem buildApp_without_factory:
  assumes "\<forall>script \<in> set scripts. script \<noteq> [] \<longrightarrow>
             (\<forall>tr. \<exists>tr' src. buildScript n h script script tr = Some (tr', Inr src)
                        \<and> evalThrows src = None \<and> \<not> isFunction (createSsrApp src))"
  shows "buildApp n h scripts = Some (Inr None)"
proof -
  obtain tr' f where "evalScripts n h scripts ExpUndefined [] = Some (tr', Inr (Some f))"
    and "\<not> isFunction f"
    using evalScripts_without_factory [OF assms, of ExpUndefined "[]"]
    by (auto simp: isFunction_def)
  then show ?thesis
    by (auto simp: buildApp_def isFunction_def split: export.splits option.splits)
qed

lemma bare_builds: "buildScript 3 demo_host ''/srv/dist/bare.js'' ''/srv/dist/bare.js'' tr = Some (tr, Inr plain_module)"
  by (simp add: numeral_3_eq_3 demo_host_def demo_fs_def plain_module_def)

theorem buildApp_without_factory_witness:
  "buildApp 3 demo_host [''/srv/dist/bare.js''] = Some (Inr None)"
  using buildApp_without_factory [of "[''/srv/dist/bare.js'']" 3 demo_host]
  by (simp add: bare_builds plain_module_def isFunction_def)

subsection \<open>The module whitelist\<close>

lemma demo_build_eq: "demo_build = Some (Inr (Some demo_sandbox))"
  unfolding demo_build_def demo_sandbox_def by code_simp

lemma whitelistedRequire_not_allowed:
  "getPackageName moduleName \<notin> set whitelist \<Longrightarrow>
     whitelistedRequire h whitelist ssrDir moduleName =
       ([], Inl (Error (notAllowedMessage moduleName (getPackageName moduleName))))"
  by (simp add: whitelistedRequire_def Let_def)

lemma resolveImport_bare:
  "\<not> startsWith specifier ''.'' \<Longrightarrow> resolveImport h specifier importerPath = require_resolve h specifier"
  by (simp add: resolveImport_def)

text \<open>
  C1. With an empty whitelist, the sandbox require refuses the package left-pad with the
  error that names the specifier and the package and loads nothing; the import graph
  does not consult the whitelist: the import of left-pad from the entry script is
  resolved by the host, and the module is evaluated in the sandbox that buildApp
  returns.
\<close>

theorem import_of_unlisted_package_is_evaluated:
  "\<not> startsWith ''left-pad'' ''.''
   \<and> getPackageName ''left-pad'' = ''left-pad''
   \<and> whitelistedRequire demo_host [] ''/srv/dist'' ''left-pad''
       = ([], Inl (Error (notAllowedMessage ''left-pad'' ''left-pad'')))
   \<and> link 2 demo_host ''/srv/dist/app.js'' ''left-pad'' ''/srv/dist/app.js'' []
       = Some ([''/srv/node_modules/left-pad/index.js''], Inr plain_module)
   \<and> buildApp 3 demo_host [''/srv/dist/app.js'']
       = Some (Inr (Some (AppContext [''/srv/dist/util/index.js'',
                                      ''/srv/node_modules/left-pad/index.js'',
                                      ''/srv/dist/app.js''])))"
  by code_simp

subsection \<open>The pool and the visit\<close>

lemma enqueue_funpow_items:
  "k \<le> m \<Longrightarrow> (enqueue ^^ k) (newQueue b m) = \<lparr>items = replicate k b, maxSize = m, builderFn = b\<rparr>"
proof (induction k)
  case 0
  then show ?case by (simp add: newQueue_def)
next
  case (Suc k)
  then show ?case by (simp add: enqueue_def replicate_append_same)
qed

lemma buildSandboxQueue_eq:
  "buildSandboxQueue b k = \<lparr>items = replicate k b, maxSize = k, builderFn = b\<rparr>"
  by (simp add: buildSandboxQueue_def enqueue_funpow_items)


lemma timer_step:
  "\<exists>s1. visit_step (app, s) TimerFires = (app, s1) \<and> returned s1 = returned s"
  by (cases "timerMs s") (simp_all add: result_destroy_def)

lemma timers_only:
  "\<forall>ev \<in> set events. ev = TimerFires \<Longrightarrow>
     fst (foldl visit_step (app, s) events) = app
     \<and> returned (snd (foldl visit_step (app, s) events)) = returned s"
proof (induction events arbitrary: s)
  case Nil
  then show ?case by simp
next
  case (Cons ev events)
  then have ev: "ev = TimerFires" by simp
  obtain s1 where s1: "visit_step (app, s) TimerFires = (app, s1)" and r1: "returned s1 = returned s"
    using timer_step by blast
  from Cons.IH [of s1] Cons.prems ev s1 r1 show ?case by simp
qed

lemma after_return:
  "returned s \<Longrightarrow> timerMs s = None \<Longrightarrow> foldl visit_step (app, s) events = (app, s)"
proof (induction events)
  case Nil
  then show ?case by simp
next
  case (Cons ev events)
  then show ?case by (cases ev) simp_all
qed

lemma timers_keep_unreturned:
  assumes "\<forall>ev \<in> set pre. ev = TimerFires"
  shows "\<exists>s1. foldl visit_step (app, s) pre = (app, s1) \<and> returned s1 = returned s"
  using timers_only [OF assms, of app s] by (cases "foldl visit_step (app, s) pre") auto

lemma visit_settles:
  assumes "\<not> returned s"
  shows "\<exists>s'. visit_step (app, s) (VisitSettles outcome)
                 = (app\<lparr>sandboxQueue := enqueue (sandboxQueue app)\<rparr>, s')
              \<and> returned s' \<and> timerMs s' = None \<and> finalized (result s') \<and> isDestroyed (result s')
              \<and> error (result s') = (case outcome of Inr _ \<Rightarrow> error (result s) | Inl e \<Rightarrow> Some e)"
  using assms
  by (cases outcome) (simp_all add: Let_def result_finalize_def result_destroy_def)

lemma visit_begin_unreturned:
  "visit_begin app options = (Fulfilled s, app') \<Longrightarrow>
     \<not> returned s \<and> error (result s) = None \<and> \<not> isDestroyed (result s)"
  by (auto simp: visit_begin_def newResult_def split: prod.splits option.splits sum.splits)

text \<open>
  C2. Once a visit has its sandbox, the promise it returned stays pending for as long as
  the promise of _visit has not settled, whatever the timer does: the timer callback
  destroys the instance and sets the error on the result, and resolves nothing. When
  _visit is fulfilled before the timer fires, the visit is fulfilled with a result that
  carries no error, and nothing that comes later changes it.
\<close>

text \<open>What the timer does when it fires first: the forced destruction and its error.\<close>

lemma timer_sets_forced_error:
  assumes "timerMs s = Some ms" and "\<not> isDestroyed (result s)"
  shows "\<exists>s'. visit_step (app, s) TimerFires = (app, s')
              \<and> error (result s') = Some (forcedDestructionError ms)
              \<and> isDestroyed (result s') \<and> returned s' = returned s \<and> timerMs s' = None"
  using assms by (simp add: result_destroy_def)

theorem visit_pending_until_visit_settles:
  assumes "visit_begin app options = (Fulfilled s, app')"
  shows "((\<forall>ev \<in> set events. ev = TimerFires) \<longrightarrow> app_visit app options events = (Pending, app'))
       \<and> (\<exists>r. app_visit app options (VisitSettles (Inr shoebox) # events)
                 = (Fulfilled r, app'\<lparr>sandboxQueue := enqueue (sandboxQueue app')\<rparr>)
              \<and> error r = None)"
proof (intro conjI impI)
  assume t: "\<forall>ev \<in> set events. ev = TimerFires"
  from visit_begin_unreturned [OF assms] have nr: "\<not> returned s" by simp
  from timers_keep_unreturned [OF t, of app' s] nr
  show "app_visit app options events = (Pending, app')"
    by (auto simp: app_visit_def assms visit_promise_def)
next
  from visit_begin_unreturned [OF assms]
  have nr: "\<not> returned s" and ne: "error (result s) = None" by simp_all
  from visit_settles [OF nr, of app' "Inr shoebox"] obtain s' where
    st: "visit_step (app', s) (VisitSettles (Inr shoebox)) = (app'\<lparr>sandboxQueue := enqueue (sandboxQueue app')\<rparr>, s')"
    and r: "returned s'" and tm: "timerMs s' = None" and er: "error (result s') = error (result s)"
    by auto
  have "foldl visit_step (app', s) (VisitSettles (Inr shoebox) # events)
          = (app'\<lparr>sandboxQueue := enqueue (sandboxQueue app')\<rparr>, s')"
    using st after_return [OF r tm] by simp
  then show "\<exists>r. app_visit app options (VisitSettles (Inr shoebox) # events)
                 = (Fulfilled r, app'\<lparr>sandboxQueue := enqueue (sandboxQueue app')\<rparr>)
              \<and> error r = None"
    using r er ne by (simp add: app_visit_def assms visit_promise_def)
qed

lemma demo_app_begin:
  "visit_begin (newEmberApp demo_build None) forced_options
     = (Fulfilled \<lparr>result = \<lparr>error = None, isDestroyed = False, finalized = False,
                               usedPrebuiltSandbox = True, sandbox = demo_sandbox, body = []\<rparr>,
                   timerMs = Some 50, shoeboxDisabled = False, returned = False\<rparr>,
        \<lparr>sandboxQueue = \<lparr>items = [], maxSize = 1, builderFn = demo_build\<rparr>\<rparr>)"
  by (simp add: newEmberApp_def buildSandboxQueue_eq visit_begin_def dequeue_def demo_build_eq
        forced_options_def newResult_def)

theorem visit_pending_until_visit_settles_witness:
  "app_visit (newEmberApp demo_build None) forced_options [TimerFires]
     = (Pending, \<lparr>sandboxQueue = \<lparr>items = [], maxSize = 1, builderFn = demo_build\<rparr>\<rparr>)"
  using visit_pending_until_visit_settles [OF demo_app_begin, of "[TimerFires]"]
  by simp


lemma newEmberSsr_default: "newEmberSsr None paths builder k = Inr ssr0 \<Longrightarrow> \<not> resilient ssr0"
  by (auto simp: newEmberSsr_def split: sum.splits if_splits)

text \<open>
  C3 (as amended). An error raised in the boot or render phase is attached to the result,
  with which EmberApp.visit is fulfilled. EmberSsr.visit raises the attached error again
  unless resilient mode is in effect, and resilient mode is off by default: an EmberSsr
  constructed without the resilient option is not resilient, and a visit resolves with
  the error attached only when the option of the visit, or without one the setting of
  the instance, is truthy.
\<close>

lemma newEmberSsr_configured:
  "newEmberSsr (Some v) paths builder k = Inr ssr0 \<Longrightarrow> resilient ssr0 = truthy v"
  by (auto simp: newEmberSsr_def split: sum.splits if_splits)

theorem ssr_visit_error_policy:
  assumes "visit_begin (emberApp ssr) options = (Fulfilled s, app')"
    and "\<forall>ev \<in> set pre. ev = TimerFires"
  shows "(\<forall>paths builder k ssr0. newEmberSsr None paths builder k = Inr ssr0 \<longrightarrow> \<not> resilient ssr0)
     \<and> (\<forall>v paths builder k ssr0. newEmberSsr (Some v) paths builder k = Inr ssr0 \<longrightarrow>
            resilient ssr0 = truthy v)
     \<and> (\<exists>r app''. app_visit (emberApp ssr) options (pre @ VisitSettles (Inl e) # rest)
                     = (Fulfilled r, app'')
           \<and> error r = Some e
           \<and> ssr_visit ssr options (pre @ VisitSettles (Inl e) # rest)
               = (if (case opt_resilient options of None \<Rightarrow> resilient ssr | Some v \<Rightarrow> truthy v)
                  then Fulfilled r else Rejected e,
                  ssr\<lparr>emberApp := app''\<rparr>))"
proof -
  from visit_begin_unreturned [OF assms(1)] have nr: "\<not> returned s" by simp
  from timers_keep_unreturned [OF assms(2), of app' s] nr obtain s1 where
    f1: "foldl visit_step (app', s) pre = (app', s1)" and nr1: "\<not> returned s1"
    by auto
  from visit_settles [OF nr1, of app' "Inl e"] obtain s2 where
    st: "visit_step (app', s1) (VisitSettles (Inl e))
           = (app'\<lparr>sandboxQueue := enqueue (sandboxQueue app')\<rparr>, s2)"
    and r2: "returned s2" and tm: "timerMs s2 = None" and er: "error (result s2) = Some e"
    by auto
  have fold: "foldl visit_step (app', s) (pre @ VisitSettles (Inl e) # rest)
          = (app'\<lparr>sandboxQueue := enqueue (sandboxQueue app')\<rparr>, s2)"
    using f1 st after_return [OF r2 tm] by simp
  have av: "app_visit (emberApp ssr) options (pre @ VisitSettles (Inl e) # rest)
          = (Fulfilled (result s2), app'\<lparr>sandboxQueue := enqueue (sandboxQueue app')\<rparr>)"
    using fold r2 by (simp add: app_visit_def assms(1) visit_promise_def)
  have sv: "ssr_visit ssr options (pre @ VisitSettles (Inl e) # rest)
          = (if (case opt_resilient options of None \<Rightarrow> resilient ssr | Some v \<Rightarrow> truthy v)
             then Fulfilled (result s2) else Rejected e,
             ssr\<lparr>emberApp := app'\<lparr>sandboxQueue := enqueue (sandboxQueue app')\<rparr>\<rparr>)"
    unfolding ssr_visit_def av using er by (simp add: Let_def)
  show ?thesis using av sv er newEmberSsr_default newEmberSsr_configured by blast
qed

lemma demo_plain_begin:
  "visit_begin (newEmberApp demo_build None) no_options
     = (Fulfilled \<lparr>result = \<lparr>error = None, isDestroyed = False, finalized = False,
                               usedPrebuiltSandbox = True, sandbox = demo_sandbox, body = []\<rparr>,
                   timerMs = None, shoeboxDisabled = False, returned = False\<rparr>,
        \<lparr>sandboxQueue = \<lparr>items = [], maxSize = 1, builderFn = demo_build\<rparr>\<rparr>)"
  by (simp add: newEmberApp_def buildSandboxQueue_eq visit_begin_def dequeue_def demo_build_eq
        no_options_def newResult_def)

theorem ssr_visit_error_policy_witness:
  "fst (ssr_visit demo_ssr no_options [VisitSettles (Inl (Error ''boom''))]) = Rejected (Error ''boom'')
   \<and> (\<exists>r. fst (ssr_visit demo_ssr (no_options\<lparr>opt_resilient := Some (JBool True)\<rparr>)
                  [VisitSettles (Inl (Error ''boom''))]) = Fulfilled r
            \<and> error r = Some (Error ''boom''))"
proof -
  have b1: "visit_begin (emberApp demo_ssr) no_options
     = (Fulfilled \<lparr>result = \<lparr>error = None, isDestroyed = False, finalized = False,
                               usedPrebuiltSandbox = True, sandbox = demo_sandbox, body = []\<rparr>,
                   timerMs = None, shoeboxDisabled = False, returned = False\<rparr>,
        \<lparr>sandboxQueue = \<lparr>items = [], maxSize = 1, builderFn = demo_build\<rparr>\<rparr>)"
    using demo_plain_begin by (simp add: demo_ssr_def)
  have b2: "visit_begin (emberApp demo_ssr) (no_options\<lparr>opt_resilient := Some (JBool True)\<rparr>)
     = (Fulfilled \<lparr>result = \<lparr>error = None, isDestroyed = False, finalized = False,
                               usedPrebuiltSandbox = True, sandbox = demo_sandbox, body = []\<rparr>,
                   timerMs = None, shoeboxDisabled = False, returned = False\<rparr>,
        \<lparr>sandboxQueue = \<lparr>items = [], maxSize = 1, builderFn = demo_build\<rparr>\<rparr>)"
    by (simp add: demo_ssr_def newEmberApp_def buildSandboxQueue_eq visit_begin_def dequeue_def
          demo_build_eq no_options_def newResult_def)
  have e: "\<forall>ev \<in> set []. ev = TimerFires" by simp
  from ssr_visit_error_policy [OF b1 e, of "Error ''boom''" "[]"]
       ssr_visit_error_policy [OF b2 e, of "Error ''boom''" "[]"]
  show ?thesis
    by (auto simp: demo_ssr_def no_options_def)
qed

text \<open>
  C3 as stated fails: an EmberSsr constructed with no resilient setting, visited with no
  resilient option, rejects with the error raised during rendering.
\<close>

theorem default_visit_rejects:
  "newEmberSsr None dist_only demo_build None = Inr demo_ssr
   \<and> opt_resilient no_options = None
   \<and> fst (ssr_visit demo_ssr no_options [VisitSettles (Inl (Error ''boom''))])
       = Rejected (Error ''boom'')"
  by (simp add: newEmberSsr_def dist_only_def newSsrPaths_def assignPaths_def js_or_def demo_ssr_def
        no_options_def ssr_visit_def app_visit_def newEmberApp_def buildSandboxQueue_eq
        visit_begin_def dequeue_def demo_build_eq newResult_def Let_def result_finalize_def
        result_destroy_def visit_promise_def)

text \<open>
  C8. A visit whose dequeued build gave no sandbox (the build was rejected, returned
  null, or never returns) does not reach the finally block: the visit is not fulfilled
  and nothing is enqueued, so a pool of k entries is left with k - 1.
\<close>

theorem visit_without_sandbox_does_not_enqueue:
  assumes "0 < k" and "\<forall>ctx. builder \<noteq> Some (Inr (Some ctx))"
  shows "length (items (sandboxQueue (newEmberApp builder (Some k)))) = k
       \<and> (\<exists>p app'. app_visit (newEmberApp builder (Some k)) options events = (p, app')
             \<and> (\<forall>r. p \<noteq> Fulfilled r)
             \<and> length (items (sandboxQueue app')) = k - 1)"
proof -
  obtain j where k: "k = Suc j" using assms(1) by (cases k) auto
  have q: "sandboxQueue (newEmberApp builder (Some k))
             = \<lparr>items = replicate k builder, maxSize = k, builderFn = builder\<rparr>"
    using assms(1) by (simp add: newEmberApp_def buildSandboxQueue_eq)
  have d: "dequeue (sandboxQueue (newEmberApp builder (Some k)))
             = ((builder, True), \<lparr>items = replicate j builder, maxSize = k, builderFn = builder\<rparr>)"
    unfolding q by (simp add: dequeue_def k)
  show ?thesis
  proof (cases builder)
    case None
    then show ?thesis using q d k by (simp add: app_visit_def visit_begin_def)
  next
    case (Some outcome)
    show ?thesis
    proof (cases outcome)
      case (Inl e)
      then show ?thesis using Some q d k by (simp add: app_visit_def visit_begin_def)
    next
      case (Inr built)
      then have "built = None" using Some assms(2) by (cases built) auto
      then show ?thesis using Inr Some q d k by (simp add: app_visit_def visit_begin_def)
    qed
  qed
qed

text \<open>
  When the sandbox is there and the promise of _visit settles, the finally block does
  enqueue one build, and the pool is back at its size.
\<close>

lemma settled_visit_refills_pool:
  assumes "0 < k" and "\<forall>ev \<in> set pre. ev = TimerFires"
  shows "length (items (sandboxQueue (snd (app_visit (newEmberApp (Some (Inr (Some ctx))) (Some k))
            options (pre @ VisitSettles outcome # rest))))) = k"
proof -
  let ?b = "Some (Inr (Some ctx)) :: build"
  obtain j where k: "k = Suc j" using assms(1) by (cases k) auto
  let ?q = "\<lparr>items = replicate j ?b, maxSize = k, builderFn = ?b\<rparr>"
  obtain s where b: "visit_begin (newEmberApp ?b (Some k)) options = (Fulfilled s, \<lparr>sandboxQueue = ?q\<rparr>)"
    using assms(1) by (simp add: newEmberApp_def buildSandboxQueue_eq visit_begin_def dequeue_def k)
  from visit_begin_unreturned [OF b] have nr: "\<not> returned s" by simp
  from timers_keep_unreturned [OF assms(2), of "\<lparr>sandboxQueue = ?q\<rparr>" s] nr obtain s1 where
    f1: "foldl visit_step (\<lparr>sandboxQueue = ?q\<rparr>, s) pre = (\<lparr>sandboxQueue = ?q\<rparr>, s1)"
    and nr1: "\<not> returned s1"
    by auto
  from visit_settles [OF nr1, of "\<lparr>sandboxQueue = ?q\<rparr>" outcome] obtain s2 where
    st: "visit_step (\<lparr>sandboxQueue = ?q\<rparr>, s1) (VisitSettles outcome)
           = (\<lparr>sandboxQueue = enqueue ?q\<rparr>, s2)"
    and r2: "returned s2" and tm: "timerMs s2 = None"
    by auto
  have "foldl visit_step (\<lparr>sandboxQueue = ?q\<rparr>, s) (pre @ VisitSettles outcome # rest)
          = (\<lparr>sandboxQueue = enqueue ?q\<rparr>, s2)"
    using f1 st after_return [OF r2 tm] by simp
  then have "snd (app_visit (newEmberApp ?b (Some k)) options (pre @ VisitSettles outcome # rest))
          = \<lparr>sandboxQueue = enqueue ?q\<rparr>"
    by (simp add: app_visit_def b)
  then show ?thesis by (simp add: enqueue_def k)
qed

lemma bare_build_eq: "bare_build = Some (Inr None)"
  unfolding bare_build_def by code_simp

theorem visit_without_sandbox_does_not_enqueue_witness:
  "length (items (sandboxQueue (newEmberApp bare_build (Some 1)))) = 1
   \<and> app_visit (newEmberApp bare_build (Some 1)) no_options [VisitSettles (Inr None)]
       = (Rejected nullContextError, \<lparr>sandboxQueue = \<lparr>items = [], maxSize = 1, builderFn = bare_build\<rparr>\<rparr>)"
  using visit_without_sandbox_does_not_enqueue [of 1 bare_build no_options "[VisitSettles (Inr None)]"]
  by (simp add: bare_build_eq app_visit_def visit_begin_def newEmberApp_def buildSandboxQueue_eq
        dequeue_def)

subsection \<open>Worker exits\<close>

text \<open>
  C7 (as amended). On every worker exit the supervisor writes the line that tells the
  cause (a signal, an exit code other than 0, or a clean exit) and forks one replacement
  worker; this does not depend on anything the supervisor has sent before, so a worker
  that exits after a shutdown broadcast is replaced as well.
\<close>

theorem exit_always_respawns:
  "uiLines (workerExit pid code signal sv)
     = uiLines sv @ [exitLine code signal, ''forked worker '' @ show_nat (nextPid sv),
                      ''worker online'']
   \<and> workers (workerExit pid code signal sv) = removeAll pid (workers sv) @ [nextPid sv]
   \<and> workers (workerExit pid code signal (stop sv)) = removeAll pid (workers sv) @ [nextPid sv]
   \<and> (present signal \<longrightarrow> exitLine code signal = ''worker was killed by signal: '' @ the signal)
   \<and> (\<not> present signal \<and> code \<noteq> Some 0 \<longrightarrow>
        exitLine code signal = ''worker exited with error code: '' @
                               (case code of None \<Rightarrow> ''null'' | Some c \<Rightarrow> show_int c))
   \<and> (\<not> present signal \<and> code = Some 0 \<longrightarrow> exitLine code signal = ''worker exited'')"
  by (simp add: workerExit_def exitHandler_def forkWorker_def stop_def broadcast_def exitLine_def)

theorem exit_always_respawns_witness:
  "uiLines (workerExit 1 None (Some ''SIGKILL'') (forkWorker initial_supervisor))
     = [''forked worker 1'', ''worker online'', ''worker was killed by signal: SIGKILL'',
        ''forked worker 2'', ''worker online'']
   \<and> uiLines (workerExit 1 (Some 3) None (forkWorker initial_supervisor))
     = [''forked worker 1'', ''worker online'', ''worker exited with error code: 3'',
        ''forked worker 2'', ''worker online'']
   \<and> uiLines (workerExit 1 (Some 0) None (forkWorker initial_supervisor))
     = [''forked worker 1'', ''worker online'', ''worker exited'',
        ''forked worker 2'', ''worker online'']"
proof -
  let ?sv = "forkWorker initial_supervisor"
  have lines: "uiLines ?sv = [''forked worker 1'', ''worker online'']"
    and forked: "''forked worker '' @ show_nat (nextPid ?sv) = ''forked worker 2''"
    and coded: "''worker exited with error code: '' @ show_int 3 = ''worker exited with error code: 3''"
    by code_simp+
  have p1: "present (Some ''SIGKILL'')" and p2: "\<not> present None"
    by (simp_all add: present_def)
  from exit_always_respawns [of 1 None "Some ''SIGKILL''" ?sv] p1
  have a: "uiLines (workerExit 1 None (Some ''SIGKILL'') ?sv)
             = uiLines ?sv @ [''worker was killed by signal: SIGKILL'',
                              ''forked worker '' @ show_nat (nextPid ?sv), ''worker online'']"
    by simp
  from exit_always_respawns [of 1 "Some 3" None ?sv] p2
  have b: "uiLines (workerExit 1 (Some 3) None ?sv)
             = uiLines ?sv @ [''worker exited with error code: '' @ show_int 3,
                              ''forked worker '' @ show_nat (nextPid ?sv), ''worker online'']"
    by simp
  from exit_always_respawns [of 1 "Some 0" None ?sv] p2
  have c: "uiLines (workerExit 1 (Some 0) None ?sv)
             = uiLines ?sv @ [''worker exited'',
                              ''forked worker '' @ show_nat (nextPid ?sv), ''worker online'']"
    by simp
  show ?thesis
    unfolding a b c lines forked coded by simp
qed

text \<open>
  C7 as stated fails: the supervisor forks one worker and broadcasts the shutdown; the
  worker handles the message by exiting with code 0; the supervisor forks a replacement.
\<close>

theorem worker_replaced_after_shutdown:
  "outbox (stop (forkWorker initial_supervisor)) = [(1, Shutdown)]
   \<and> handleMessage demo_worker Shutdown = Exits 0
   \<and> workers (workerExit 1 (Some 0) None (stop (forkWorker initial_supervisor))) = [2]"
  by code_simp

subsection \<open>Serialized regular expressions\<close>

lemma matchBody_no_delimiter:
  "d \<notin> set s \<Longrightarrow> matchBody d acc s = None"
proof (induction d acc s rule: matchBody.induct)
  case (1 d acc)
  then show ?case by (simp add: matchRest_def matchTail_def)
next
  case (2 d acc c)
  then show ?case by (auto simp: matchRest_def matchTail_def orElse_def)
next
  case (3 d acc c1 c2 t)
  then show ?case by (auto simp: matchRest_def matchTail_def orElse_def)
qed

lemma matchBody_greedy:
  assumes "1 \<notin> set s" and "1 \<notin> set fl" and "d \<notin> set fl" and "acc @ s \<noteq> []" and "d \<noteq> 1"
  shows "matchBody d acc (s @ d # fl) = Some (acc @ s, fl)"
  using assms
proof (induction "length s" arbitrary: s acc rule: less_induct)
  case less
  show ?case
  proof (cases s)
    case Nil
    then have acc: "acc \<noteq> []" using less.prems(4) by simp
    have none: "matchBody d (acc @ [d]) fl = None"
      using less.prems(3) by (auto intro: matchBody_no_delimiter)
    have rest: "matchRest d acc (d # fl) = Some (acc, fl)"
      using acc less.prems(2) by (auto simp: matchRest_def matchTail_def)
    show ?thesis
    proof (cases fl)
      case Nil
      then show ?thesis using \<open>s = []\<close> none rest less.prems(5)
        by (simp add: orElse_def)
    next
      case (Cons c t)
      then have "c \<noteq> d" using less.prems(3) by auto
      then show ?thesis using \<open>s = []\<close> Cons none rest by (simp add: orElse_def)
    qed
  next
    case (Cons c s1)
    have c1: "c \<noteq> 1" using less.prems(1) Cons by auto
    have ih: "matchBody d (acc @ [c]) (s1 @ d # fl) = Some (acc @ c # s1, fl)"
      using less.hyps [of s1 "acc @ [c]"] less.prems Cons by simp
    show ?thesis
    proof (cases s1)
      case Nil
      have "matchBody d (acc @ [c, d]) fl = None"
        using less.prems(3) by (auto intro: matchBody_no_delimiter)
      then show ?thesis using Nil Cons ih c1 by (auto simp: orElse_def)
    next
      case (Cons c2 s2)
      show ?thesis
      proof (cases "c = 0x5C \<and> c2 = d")
        case True
        have "matchBody d (acc @ [c, c2]) (s2 @ d # fl) = Some ((acc @ [c, c2]) @ s2, fl)"
          using less.hyps [of s2 "acc @ [c, c2]"] less.prems Cons \<open>s = c # s1\<close> by simp
        then show ?thesis using Cons \<open>s = c # s1\<close> True by (simp add: orElse_def)
      next
        case False
        then show ?thesis using Cons \<open>s = c # s1\<close> ih c1 by (auto simp: orElse_def)
      qed
    qed
  qed
qed

lemma js_length: "length (js s) = length s"
  by (simp add: js_def)

text \<open>
  A regular expression whose source and flags have no code unit U+0001 is restored by
  deserializing its serialized form, also when its source contains the delimiter: the
  repetition gives back up to the last delimiter, and flags contain none.
\<close>

lemma regexp_roundtrip:
  assumes "source r \<noteq> []" and "1 \<notin> set (source r)" and "1 \<notin> set (flags r)"
    and "0x2F \<notin> set (flags r)" and "valid (source r) (flags r)"
  shows "deserializeRegExp valid (serializeRegExp (ERegExp r)) = Inr (ERegExp r)"
proof -
  have t: "take 7 (js ''regexp:/'' @ source r @ js ''/'' @ flags r) = js ''regexp:''"
    and d: "drop 7 (js ''regexp:/'' @ source r @ js ''/'' @ flags r) = 0x2F # source r @ 0x2F # flags r"
    and nl: "\<not> isLineTerminator 0x2F"
    by (simp_all add: js_def isLineTerminator_def)
  have "matchBody 0x2F [] (source r @ 0x2F # flags r) = Some ([] @ source r, flags r)"
    using assms by (intro matchBody_greedy) simp_all
  then have "matchRegex (js ''regexp:/'' @ source r @ js ''/'' @ flags r) = Some (source r, flags r)"
    unfolding matchRegex_def t d using nl by simp
  then show ?thesis
    using assms(5) by (simp add: deserializeRegExp_def newRegExp_def)
qed

text \<open>
  C6. The regular expression whose source is the single code unit U+0001, with no flags,
  has no delimiter in its source or flags; its serialized form is not matched by
  matchRegex, and deserializing it gives back the string, not a regular expression.
\<close>

theorem control_character_source_not_restored:
  "0x2F \<notin> set (source \<lparr>source = [1], flags = []\<rparr>)
   \<and> 0x2F \<notin> set (flags \<lparr>source = [1], flags = []\<rparr>)
   \<and> serializeRegExp (ERegExp \<lparr>source = [1], flags = []\<rparr>) = EString (js ''regexp:/'' @ [1] @ js ''/'')
   \<and> deserializeRegExp valid (serializeRegExp (ERegExp \<lparr>source = [1], flags = []\<rparr>))
       = Inr (EString (js ''regexp:/'' @ [1] @ js ''/''))"
  by (simp add: deserializeRegExp_def matchRegex_def js_def isLineTerminator_def orElse_def
        matchRest_def matchTail_def)

subsection \<open>The shoebox\<close>

lemma unat_hexDigit:
  "d < 16 \<Longrightarrow> unat (hexDigit d) = (if d < 10 then 48 + d else 87 + d)"
  by (simp add: hexDigit_def unat_of_nat)

lemma hexValue_hexDigit: "d < 16 \<Longrightarrow> hexValue (hexDigit d) = Some d"
  by (simp add: hexValue_def unat_hexDigit Let_def)

lemma unat_jschar_less: "unat (c :: jschar) < 65536"
  using unsigned_less [of c, where 'a = nat] by simp

lemma hex4_digits:
  "hex4 (hexDigit (unat c div 4096)) (hexDigit (unat c div 256 mod 16))
        (hexDigit (unat c div 16 mod 16)) (hexDigit (unat c mod 16)) = Some c"
proof -
  have d3: "unat c div 4096 < 16" using unat_jschar_less [of c] by simp
  have a: "unat c div 4096 = unat c div 256 div 16" and b: "unat c div 256 = unat c div 16 div 16"
    using div_mult2_eq [of "unat c" 256 16] div_mult2_eq [of "unat c" 16 16] by simp_all
  have "unat c div 4096 * 16 + unat c div 256 mod 16 = unat c div 256"
    unfolding a by (rule div_mult_mod_eq)
  moreover have "unat c div 256 * 16 + unat c div 16 mod 16 = unat c div 16"
    unfolding b by (rule div_mult_mod_eq)
  moreover have "unat c div 16 * 16 + unat c mod 16 = unat c"
    by (rule div_mult_mod_eq)
  ultimately
  have eq: "((unat c div 4096 * 16 + unat c div 256 mod 16) * 16 + unat c div 16 mod 16) * 16
              + unat c mod 16 = unat c"
    by simp
  have "hex4 (hexDigit (unat c div 4096)) (hexDigit (unat c div 256 mod 16))
          (hexDigit (unat c div 16 mod 16)) (hexDigit (unat c mod 16))
        = Some (of_nat (((unat c div 4096 * 16 + unat c div 256 mod 16) * 16
                          + unat c div 16 mod 16) * 16 + unat c mod 16))"
    using d3 by (simp add: hex4_def hexValue_hexDigit del: of_nat_add of_nat_mult)
  also have "\<dots> = Some (of_nat (unat c))"
    by (simp only: eq)
  also have "\<dots> = Some c"
    by simp
  finally show ?thesis .
qed

lemma parseChars_unicodeEscape:
  "parseChars (unicodeEscape c @ rest) = consUnit c (parseChars rest)"
  by (simp add: unicodeEscape_def hex4_digits)

lemma hexDigit_plain: "d < 16 \<Longrightarrow> \<not> matchesEscapeRegExp (hexDigit d)"
proof -
  assume d: "d < 16"
  have "unat (hexDigit d) \<noteq> unat (0x2028 :: jschar)" "unat (hexDigit d) \<noteq> unat (0x2029 :: jschar)"
    "unat (hexDigit d) \<noteq> unat (0x26 :: jschar)"
    "unat (hexDigit d) \<noteq> unat (0x3E :: jschar)" "unat (hexDigit d) \<noteq> unat (0x3C :: jschar)"
    using d by (auto simp: unat_hexDigit)
  then show ?thesis
    unfolding matchesEscapeRegExp_def by auto
qed


lemma escapeJSONString_Nil [simp]: "escapeJSONString [] = []"
  by (simp add: escapeJSONString_def)

lemma escapeJSONString_Cons:
  "escapeJSONString (c # s) = (if matchesEscapeRegExp c then JSON_ESCAPE c else [c]) @ escapeJSONString s"
  by (simp add: escapeJSONString_def)

lemma escapeJSONString_append [simp]:
  "escapeJSONString (a @ b) = escapeJSONString a @ escapeJSONString b"
  by (simp add: escapeJSONString_def)

lemma escapeJSONString_plain:
  "\<forall>c \<in> set s. \<not> matchesEscapeRegExp c \<Longrightarrow> escapeJSONString s = s"
  by (induction s) (simp_all add: escapeJSONString_Cons)

lemma JSON_ESCAPE_unicodeEscape: "matchesEscapeRegExp c \<Longrightarrow> JSON_ESCAPE c = unicodeEscape c"
  unfolding matchesEscapeRegExp_def
  by (elim disjE) (simp_all add: JSON_ESCAPE_def unicodeEscape_def hexDigit_def)

lemma unicodeEscape_plain: "\<forall>x \<in> set (unicodeEscape c). \<not> matchesEscapeRegExp x"
proof -
  have "unat c div 4096 < 16" using unat_jschar_less [of c] by simp
  then show ?thesis
    by (simp add: unicodeEscape_def hexDigit_plain) (simp add: matchesEscapeRegExp_def)
qed

lemma escaped_plain: "\<forall>x \<in> set (escapeJSONString s). \<not> matchesEscapeRegExp x"
proof (induction s)
  case Nil
  then show ?case by simp
next
  case (Cons c s)
  then show ?case
    using unicodeEscape_plain [of c]
    by (auto simp: escapeJSONString_Cons JSON_ESCAPE_unicodeEscape)
qed

lemma parse_plain_unit:
  "c \<noteq> 0x22 \<Longrightarrow> c \<noteq> 0x5C \<Longrightarrow> \<not> c < 0x20 \<Longrightarrow> parseChars (c # rest) = consUnit c (parseChars rest)"
  by simp

lemma parse_unit:
  "parseChars (escapeJSONString (quoteUnit c) @ rest) = consUnit c (parseChars rest)"
proof (cases "matchesEscapeRegExp c")
  case True
  then have "quoteUnit c = [c]"
    unfolding matchesEscapeRegExp_def
    by (elim disjE) (simp_all add: quoteUnit_def isLeadingSurrogate_def isTrailingSurrogate_def)
  then show ?thesis
    using True by (simp add: escapeJSONString_Cons JSON_ESCAPE_unicodeEscape parseChars_unicodeEscape
                        del: parseChars.simps)
next
  case False
  have plain: "escapeJSONString (quoteUnit c) = quoteUnit c"
  proof (rule escapeJSONString_plain)
    show "\<forall>x \<in> set (quoteUnit c). \<not> matchesEscapeRegExp x"
      using False unicodeEscape_plain [of c]
      by (auto simp: quoteUnit_def matchesEscapeRegExp_def)
  qed
  show ?thesis
    unfolding plain
    by (simp add: quoteUnit_def parseChars_unicodeEscape del: parseChars.simps)
       (simp add: consUnit_def)
qed


lemma surrogate_plain:
  "isLeadingSurrogate c \<or> isTrailingSurrogate c \<Longrightarrow>
     \<not> matchesEscapeRegExp c \<and> c \<noteq> 0x22 \<and> c \<noteq> 0x5C \<and> \<not> c < 0x20"
  by (auto simp: isLeadingSurrogate_def isTrailingSurrogate_def matchesEscapeRegExp_def
        word_le_nat_alt word_less_nat_alt)

lemma parse_pair:
  assumes "isLeadingSurrogate c1" and "isTrailingSurrogate c2"
  shows "parseChars (escapeJSONString (c1 # c2 # s) @ rest)
           = consUnit c1 (consUnit c2 (parseChars (escapeJSONString s @ rest)))"
  using surrogate_plain [of c1] surrogate_plain [of c2] assms
  by (simp add: escapeJSONString_Cons)

lemma parseChars_quoteUnits:
  "parseChars (escapeJSONString (quoteUnits s) @ 0x22 # rest) = Some (s, rest)"
proof (induction s rule: quoteUnits.induct)
  case 1
  show ?case by simp
next
  case (2 c)
  show ?case
    by (simp add: parse_unit consUnit_def del: parseChars.simps) simp
next
  case (3 c1 c2 t)
  show ?case
  proof (cases "isLeadingSurrogate c1 \<and> isTrailingSurrogate c2")
    case True
    then show ?thesis
      using 3 by (simp add: parse_pair consUnit_def del: parseChars.simps)
  next
    case False
    then have "quoteUnits (c1 # c2 # t) = quoteUnit c1 @ quoteUnits (c2 # t)"
      by auto
    then show ?thesis
      using 3(2) False by (simp add: parse_unit consUnit_def del: parseChars.simps quoteUnits.simps)
  qed
qed

lemma parse_quoted:
  "parseChars (tl (escapeJSONString (quoteJSONString s)) @ rest) = Some (s, rest)"
  "hd (escapeJSONString (quoteJSONString s)) = 0x22"
  "escapeJSONString (quoteJSONString s) \<noteq> []"
  by (simp_all add: quoteJSONString_def escapeJSONString_Cons matchesEscapeRegExp_def
        parseChars_quoteUnits del: parseChars.simps)

lemma escape_quoted:
  "escapeJSONString (quoteJSONString s) = 0x22 # escapeJSONString (quoteUnits s) @ [0x22]"
  by (simp add: quoteJSONString_def escapeJSONString_Cons matchesEscapeRegExp_def)

lemma digit_numchar: "isDigit c \<Longrightarrow> isNumChar c"
  by (simp add: isNumChar_def)

lemma after_digits_numchars:
  "list_all isNumChar (dropWhile isDigit s) \<Longrightarrow> list_all isNumChar s"
  by (induction s) (auto simp: digit_numchar split: if_splits)

lemma isExponent_chars: "isExponent r \<Longrightarrow> list_all isNumChar r"
  by (auto simp: isExponent_def isNumChar_def Let_def list_all_iff split: list.splits if_splits)

lemma isFractionExponent_chars:
  assumes "isFractionExponent r"
  shows "list_all isNumChar r"
proof (cases r)
  case Nil
  then show ?thesis by simp
next
  case (Cons c r1)
  show ?thesis
  proof (cases "c = 0x2E")
    case True
    then have "isExponent (dropWhile isDigit r1)"
      using assms Cons by (simp add: isFractionExponent_def)
    then have "list_all isNumChar r1"
      using isExponent_chars after_digits_numchars by blast
    then show ?thesis using Cons True by (simp add: isNumChar_def)
  next
    case False
    then have "isExponent r" using assms Cons by (simp add: isFractionExponent_def)
    then show ?thesis by (rule isExponent_chars)
  qed
qed

lemma isJsonNumber_chars:
  assumes "isJsonNumber t"
  shows "t \<noteq> [] \<and> list_all isNumChar t"
proof -
  define u where "u = (case t of [] \<Rightarrow> [] | c # r \<Rightarrow> if c = 0x2D then r else t)"
  have ip: "takeWhile isDigit u \<noteq> []" and fe: "isFractionExponent (dropWhile isDigit u)"
    using assms by (auto simp: isJsonNumber_def u_def Let_def)
  have u: "list_all isNumChar u"
    using isFractionExponent_chars [OF fe] after_digits_numchars by blast
  have "u \<noteq> []" using ip by auto
  then show ?thesis
    using u by (auto simp: u_def isNumChar_def split: list.splits if_splits)
qed

lemma unat_digitChar: "d < 10 \<Longrightarrow> unat (digitChar d) = 48 + d"
  by (simp add: digitChar_def unat_of_nat del: of_nat_add)

lemma digitValue_digitChar: "d < 10 \<Longrightarrow> digitValue (digitChar d) = d"
  by (simp add: digitValue_def unat_digitChar)

lemma isDigit_digitChar: "d < 10 \<Longrightarrow> isDigit (digitChar d)"
  by (simp add: isDigit_def word_le_nat_alt unat_digitChar)

lemma digitChar_zero: "d < 10 \<Longrightarrow> digitChar d = 0x30 \<Longrightarrow> d = 0"
proof -
  assume d: "d < 10" and z: "digitChar d = 0x30"
  have "unat (digitChar d) = unat (0x30 :: jschar)" using z by simp
  then show "d = 0" using d by (simp add: unat_digitChar)
qed

lemma digitsOf_small: "n < 10 \<Longrightarrow> digitsOf n = [digitChar (nat n)]"
  by (subst digitsOf.simps) simp

lemma digitsOf_large:
  "\<not> n < 10 \<Longrightarrow> digitsOf n = digitsOf (n div 10) @ [digitChar (nat (n mod 10))]"
  by (subst digitsOf.simps) simp

lemma digitsOf_nonempty: "digitsOf n \<noteq> []"
  by (cases "n < 10") (simp_all add: digitsOf_small digitsOf_large)

lemma digitsOf_digits: "0 \<le> n \<Longrightarrow> list_all isDigit (digitsOf n)"
proof (induction n rule: digitsOf.induct)
  case (1 n)
  show ?case
  proof (cases "n < 10")
    case True
    then show ?thesis using 1(2) by (simp add: digitsOf_small isDigit_digitChar)
  next
    case False
    then have "list_all isDigit (digitsOf (n div 10))" using 1 by simp
    moreover have "nat (n mod 10) < 10" by simp
    ultimately show ?thesis using False by (simp add: digitsOf_large isDigit_digitChar)
  qed
qed

lemma digitsOf_hd: "0 < n \<Longrightarrow> hd (digitsOf n) \<noteq> 0x30"
proof (induction n rule: digitsOf.induct)
  case (1 n)
  show ?case
  proof (cases "n < 10")
    case True
    then have "nat n < 10" "nat n \<noteq> 0" using 1(2) by simp_all
    then have "digitChar (nat n) \<noteq> 0x30" using digitChar_zero [of "nat n"] by auto
    then show ?thesis using True by (simp add: digitsOf_small)
  next
    case False
    then have "0 < n div 10" by simp
    then have "hd (digitsOf (n div 10)) \<noteq> 0x30" using 1(1) False by simp
    then show ?thesis using False digitsOf_nonempty [of "n div 10"] by (simp add: digitsOf_large)
  qed
qed

lemma digitsValue_Nil: "digitsValue [] = 0"
  by (simp add: digitsValue_def)

lemma digitsValue_snoc: "digitsValue (xs @ [c]) = digitsValue xs * 10 + int (digitValue c)"
  by (simp add: digitsValue_def)

lemma digitsValue_append: "digitsValue (xs @ ys) = digitsValue xs * 10 ^ length ys + digitsValue ys"
proof (induction ys rule: rev_induct)
  case Nil
  then show ?case by (simp add: digitsValue_Nil)
next
  case (snoc y ys)
  have "digitsValue (xs @ ys @ [y]) = digitsValue ((xs @ ys) @ [y])" by simp
  also have "\<dots> = digitsValue (xs @ ys) * 10 + int (digitValue y)" by (rule digitsValue_snoc)
  finally show ?case using snoc by (simp add: digitsValue_snoc algebra_simps)
qed

lemma digitsValue_digitsOf: "0 \<le> n \<Longrightarrow> digitsValue (digitsOf n) = n"
proof (induction n rule: digitsOf.induct)
  case (1 n)
  show ?case
  proof (cases "n < 10")
    case True
    then have "digitsValue ([] @ [digitChar (nat n)]) = n"
      using 1(2) unfolding digitsValue_snoc by (simp add: digitsValue_Nil digitValue_digitChar)
    then show ?thesis using True by (simp add: digitsOf_small)
  next
    case False
    then have "digitsValue (digitsOf (n div 10)) = n div 10" using 1 by simp
    moreover have "nat (n mod 10) < 10" by simp
    ultimately show ?thesis
      using False by (simp add: digitsOf_large digitsValue_snoc digitValue_digitChar)
  qed
qed

lemma digitsValue_zeros: "digitsValue (replicate j 0x30 @ ds) = digitsValue ds"
proof -
  have "digitsValue (replicate j 0x30) = 0"
  proof (induction j)
    case 0
    then show ?case by (simp add: digitsValue_Nil)
  next
    case (Suc j)
    have "digitsValue (replicate (Suc j) 0x30) = digitsValue (replicate j 0x30 @ [0x30])"
      by (simp add: replicate_append_same)
    then show ?case using Suc by (simp add: digitsValue_snoc digitValue_def)
  qed
  then show ?thesis by (simp add: digitsValue_append)
qed

lemma stripZeros_power:
  "s \<noteq> 0 \<Longrightarrow> s mod 10 \<noteq> 0 \<Longrightarrow> stripZeros (s * 10 ^ j) e = (s, e + int j)"
proof (induction j arbitrary: e)
  case 0
  then show ?case by (subst stripZeros.simps) simp
next
  case (Suc j)
  have "stripZeros (s * 10 ^ Suc j) e = stripZeros (s * 10 ^ j) (e + 1)"
    using Suc.prems by (subst stripZeros.simps) simp
  then show ?case using Suc.IH [OF Suc.prems] by simp
qed

lemma digits_prefix:
  assumes "list_all isDigit ds" and "r = [] \<or> \<not> isDigit (hd r)"
  shows "takeWhile isDigit (ds @ r) = ds" and "dropWhile isDigit (ds @ r) = r"
proof -
  have r: "takeWhile isDigit r = []" "dropWhile isDigit r = r"
    using assms(2) by (cases r, simp, simp)+
  show "takeWhile isDigit (ds @ r) = ds" "dropWhile isDigit (ds @ r) = r"
    using assms(1) r by (simp_all add: list_all_iff takeWhile_append2 dropWhile_append2)
qed

text \<open>
  A number token put together from an integer part, the digits of a fraction (none for
  no fraction) and an exponent part: the grammar accepts it, and these are the parts
  that are read from it.
\<close>

lemma token_parts:
  assumes ip: "list_all isDigit ip" "ip \<noteq> []"
    and fp: "list_all isDigit fp"
    and ex: "ex = [] \<or> (\<exists>sg ds. ex = 0x65 # sg # ds \<and> (sg = 0x2B \<or> sg = 0x2D) \<and> ds \<noteq> []
                              \<and> list_all isDigit ds)"
    and u: "u = ip @ (if fp = [] then [] else 0x2E # fp) @ ex"
  shows "unsignedDecimal u = (digitsValue (ip @ fp), exponentOf ex - int (length fp))"
    and "takeWhile isDigit u = ip"
    and "isFractionExponent (dropWhile isDigit u)"
    and "\<exists>c r. u = c # r \<and> isDigit c"
proof -
  have e0: "ex = [] \<or> \<not> isDigit (hd ex)"
    using ex by (auto simp: isDigit_def)
  have e1: "isExponent ex"
    using ex by (auto simp: isExponent_def)
  have e2: "ex = [] \<or> hd ex \<noteq> 0x2E"
    using ex by auto
  obtain c r where c: "ip = c # r" "isDigit c"
    using ip by (cases ip) auto
  show "\<exists>c r. u = c # r \<and> isDigit c"
    using c u by simp
  have "unsignedDecimal u = (digitsValue (ip @ fp), exponentOf ex - int (length fp))
        \<and> takeWhile isDigit u = ip \<and> isFractionExponent (dropWhile isDigit u)"
  proof (cases "fp = []")
    case True
    then have u1: "u = ip @ ex" using u by simp
    have t: "takeWhile isDigit u = ip" and d: "dropWhile isDigit u = ex"
      unfolding u1 using digits_prefix [OF ip(1) e0] by simp_all
    have "isFractionExponent ex"
      using e1 e2 by (cases ex) (simp_all add: isFractionExponent_def)
    moreover have "unsignedDecimal u = (digitsValue (ip @ fp), exponentOf ex - int (length fp))"
      unfolding unsignedDecimal_def t d using True e2 by (cases ex) simp_all
    ultimately show ?thesis using t d by simp
  next
    case False
    then have u1: "u = ip @ (0x2E # fp @ ex)" using u by simp
    have "(0x2E # fp @ ex) = [] \<or> \<not> isDigit (hd (0x2E # fp @ ex))"
      by (simp add: isDigit_def)
    from digits_prefix [OF ip(1) this]
    have t: "takeWhile isDigit u = ip" and d: "dropWhile isDigit u = 0x2E # fp @ ex"
      unfolding u1 by simp_all
    have f: "takeWhile isDigit (fp @ ex) = fp" "dropWhile isDigit (fp @ ex) = ex"
      using digits_prefix [OF fp e0] by simp_all
    have "isFractionExponent (0x2E # fp @ ex)"
      using f False e1 by (simp add: isFractionExponent_def)
    moreover have "unsignedDecimal u = (digitsValue (ip @ fp), exponentOf ex - int (length fp))"
      unfolding unsignedDecimal_def t d using f by simp
    ultimately show ?thesis using t d by simp
  qed
  then show "unsignedDecimal u = (digitsValue (ip @ fp), exponentOf ex - int (length fp))"
    and "takeWhile isDigit u = ip"
    and "isFractionExponent (dropWhile isDigit u)"
    by simp_all
qed

text \<open>
  The text that \<open>Number::toString\<close> makes of the digits of \<open>s\<close> and of \<open>n\<close> is such a token, and
  its parts denote \<open>s * 10 ^ (n - k)\<close>.
\<close>

lemma formatDigits_parts:
  assumes s: "0 < s"
  shows "\<exists>ip fp ex j.
           formatDigits (digitsOf s) n = ip @ (if fp = [] then [] else 0x2E # fp) @ ex
           \<and> list_all isDigit ip \<and> ip \<noteq> [] \<and> (ip = [0x30] \<or> hd ip \<noteq> 0x30)
           \<and> list_all isDigit fp
           \<and> (ex = [] \<or> (\<exists>sg ds. ex = 0x65 # sg # ds \<and> (sg = 0x2B \<or> sg = 0x2D) \<and> ds \<noteq> []
                               \<and> list_all isDigit ds))
           \<and> digitsValue (ip @ fp) = s * 10 ^ j
           \<and> exponentOf ex - int (length fp) + int j = n - int (length (digitsOf s))"
proof -
  define ds where "ds = digitsOf s"
  define k where "k = int (length ds)"
  have dig: "list_all isDigit ds" using s by (simp add: ds_def digitsOf_digits)
  have ne: "ds \<noteq> []" by (simp add: ds_def digitsOf_nonempty)
  have hd: "hd ds \<noteq> 0x30" using s by (simp add: ds_def digitsOf_hd)
  have val: "digitsValue ds = s" using s by (simp add: ds_def digitsValue_digitsOf)
  have kpos: "0 < k" using ne by (simp add: k_def)
  let ?P = "\<lambda>ip fp ex j.
      formatDigits ds n = ip @ (if fp = [] then [] else 0x2E # fp) @ ex
      \<and> list_all isDigit ip \<and> ip \<noteq> [] \<and> (ip = [0x30] \<or> hd ip \<noteq> 0x30)
      \<and> list_all isDigit fp
      \<and> (ex = [] \<or> (\<exists>sg ds. ex = 0x65 # sg # ds \<and> (sg = 0x2B \<or> sg = 0x2D) \<and> ds \<noteq> []
                          \<and> list_all isDigit ds))
      \<and> digitsValue (ip @ fp) = s * 10 ^ j
      \<and> exponentOf ex - int (length fp) + int j = n - k"
  consider (whole) "k \<le> n" "n \<le> 21"
    | (point) "\<not> (k \<le> n \<and> n \<le> 21)" "0 < n" "n \<le> 21"
    | (small) "\<not> (k \<le> n \<and> n \<le> 21)" "\<not> (0 < n \<and> n \<le> 21)" "- 6 < n" "n \<le> 0"
    | (expo) "\<not> (k \<le> n \<and> n \<le> 21)" "\<not> (0 < n \<and> n \<le> 21)" "\<not> (- 6 < n \<and> n \<le> 0)"
    by blast
  then have "\<exists>ip fp ex j. ?P ip fp ex j"
  proof cases
    case whole
    have "?P (ds @ replicate (nat (n - k)) 0x30) [] [] (nat (n - k))"
      using whole dig ne hd val
      by (auto simp: formatDigits_def k_def [symmetric] digitsValue_append
            digitsValue_zeros [of _ "[]", simplified] digitsValue_Nil exponentOf_def list_all_iff
            isDigit_def)
    then show ?thesis by blast
  next
    case point
    then have nk: "n < k" by linarith
    have len: "nat n < length ds" using nk point(2) by (simp add: k_def)
    have tk: "take (nat n) ds \<noteq> []" using point(2) ne by simp
    have dr: "drop (nat n) ds \<noteq> []" using len by simp
    have hdt: "hd (take (nat n) ds) = hd ds" using point(2) by (cases ds) (simp_all add: zero_less_nat_eq take_Cons')
    have digs: "list_all isDigit (take (nat n) ds)" "list_all isDigit (drop (nat n) ds)"
      using dig by (auto simp: list_all_iff dest: in_set_takeD in_set_dropD)
    have "?P (take (nat n) ds) (drop (nat n) ds) [] 0"
      using point tk dr hdt hd digs val len
      by (simp add: formatDigits_def k_def [symmetric] exponentOf_def)
    then show ?thesis by blast
  next
    case small
    have z: "digitsValue (0x30 # replicate (nat (- n)) 0x30 @ ds) = s"
      using digitsValue_zeros [of "Suc (nat (- n))" ds] val by simp
    have "?P [0x30] (replicate (nat (- n)) 0x30 @ ds) [] 0"
      using small dig ne z
      by (auto simp: formatDigits_def k_def [symmetric] exponentOf_def list_all_iff isDigit_def)
    then show ?thesis by blast
  next
    case expo
    obtain d r where dr: "ds = d # r" using ne by (cases ds) auto
    define sg :: jschar where "sg = (if n - 1 < 0 then 0x2D else 0x2B)"
    define ex where "ex = 0x65 # sg # digitsOf \<bar>n - 1\<bar>"
    have exv: "exponentOf ex = n - 1"
      by (simp add: ex_def sg_def exponentOf_def digitsValue_digitsOf)
    have exd: "list_all isDigit (digitsOf \<bar>n - 1\<bar>)" "digitsOf \<bar>n - 1\<bar> \<noteq> []"
      by (simp_all add: digitsOf_digits digitsOf_nonempty)
    have "formatDigits ds n =
            (case ds of
               [] \<Rightarrow> []
             | d # r \<Rightarrow>
                 (if r = [] then [d] else d # 0x2E # r)
                 @ [0x65] @ (if n - 1 < 0 then [0x2D] else [0x2B]) @ digitsOf \<bar>n - 1\<bar>)"
      using expo unfolding formatDigits_def Let_def k_def by (simp only: if_False)
    then have fmt: "formatDigits ds n = [d] @ (if r = [] then [] else 0x2E # r) @ ex"
      by (simp add: dr ex_def sg_def)
    have "?P [d] r ex 0"
      using fmt dig hd val exv exd unfolding dr
      by (simp add: ex_def sg_def) (simp add: k_def dr)
    then show ?thesis by blast
  qed
  then show ?thesis unfolding ds_def k_def .
qed

lemma numberToString_token:
  assumes m: "m \<noteq> 0" "m mod 10 \<noteq> 0"
  shows "isJsonNumber (numberToString (Decimal m e))"
    and "numberOfToken rnd (numberToString (Decimal m e)) = rnd m e"
proof -
  define s where "s = \<bar>m\<bar>"
  have s: "0 < s" "s \<noteq> 0" "s mod 10 \<noteq> 0"
    using m by (auto simp: s_def abs_if zmod_zminus1_not_zero)
  define n where "n = e + int (length (digitsOf s))"
  from formatDigits_parts [OF s(1), of n] obtain ip fp ex j where
    fmt: "formatDigits (digitsOf s) n = ip @ (if fp = [] then [] else 0x2E # fp) @ ex"
    and ip: "list_all isDigit ip" "ip \<noteq> []" and lead: "ip = [0x30] \<or> hd ip \<noteq> 0x30"
    and fp: "list_all isDigit fp"
    and ex: "ex = [] \<or> (\<exists>sg ds. ex = 0x65 # sg # ds \<and> (sg = 0x2B \<or> sg = 0x2D) \<and> ds \<noteq> []
                             \<and> list_all isDigit ds)"
    and val: "digitsValue (ip @ fp) = s * 10 ^ j"
    and expo: "exponentOf ex - int (length fp) + int j = n - int (length (digitsOf s))"
    by blast
  define u where "u = formatDigits (digitsOf s) n"
  have u: "u = ip @ (if fp = [] then [] else 0x2E # fp) @ ex"
    using fmt by (simp add: u_def)
  note parts = token_parts [OF ip fp ex u]
  obtain c r where c: "u = c # r" "isDigit c" using parts(4) by blast
  have cm: "c \<noteq> 0x2D" using c(2) by (auto simp: isDigit_def)
  define t where "t = numberToString (Decimal m e)"
  have t: "t = (if m < 0 then 0x2D # u else u)"
    using m(1) by (simp add: t_def numberToString_def Let_def u_def n_def s_def)
  have un: "(case t of [] \<Rightarrow> [] | c # r \<Rightarrow> if c = 0x2D then r else t) = u"
    using t c cm by simp
  show "isJsonNumber (numberToString (Decimal m e))"
    unfolding t_def [symmetric] isJsonNumber_def un Let_def
    using parts(2,3) lead ip by simp
  have neg: "(case t of [] \<Rightarrow> False | c # r \<Rightarrow> c = 0x2D) = (m < 0)"
    using t c cm by simp
  have tl: "(if m < 0 then tl t else t) = u"
    using t by simp
  have dec: "unsignedDecimal u = (s * 10 ^ j, e - int j)"
    using parts(1) val expo by (simp add: n_def)
  have nz: "s * 10 ^ j \<noteq> 0" using s by simp
  have strip: "stripZeros (s * 10 ^ j) (e - int j) = (s, e)"
    using stripZeros_power [OF s(2,3), of j "e - int j"] by simp
  have sign: "(if m < 0 then - s else s) = m"
    by (simp add: s_def)
  show "numberOfToken rnd (numberToString (Decimal m e)) = rnd m e"
    unfolding t_def [symmetric] numberOfToken_def neg Let_def tl dec
    using nz strip sign by simp
qed

lemma zero_token:
  "isJsonNumber (js ''0'')" "numberOfToken rnd (js ''0'') = Decimal 0 0"
  by (simp_all add: js_def isJsonNumber_def isFractionExponent_def isDigit_def numberOfToken_def
        unsignedDecimal_def digitsValue_def digitValue_def exponentOf_def)

text \<open>The text of a finite Number other than -0 is a number token that denotes it.\<close>

lemma exact_number_text:
  assumes "isExactNumber rnd x"
  shows "isFiniteNumber x" and "isJsonNumber (numberToString x)"
    and "numberOfToken rnd (numberToString x) = x"
proof -
  from assms obtain m e where x: "x = Decimal m e"
    and c: "(m = 0 \<and> e = 0) \<or> (m \<noteq> 0 \<and> m mod 10 \<noteq> 0 \<and> rnd m e = Decimal m e)"
    by (cases x) (simp_all add: isExactNumber_def)
  show "isFiniteNumber x" using x by (simp add: isFiniteNumber_def)
  show "isJsonNumber (numberToString x)"
  proof (cases "m = 0")
    case True
    then show ?thesis using x zero_token(1) by (simp add: numberToString_def)
  next
    case False
    then show ?thesis using c x numberToString_token(1) [where m = m and e = e] by simp
  qed
  show "numberOfToken rnd (numberToString x) = x"
  proof (cases "m = 0")
    case True
    then show ?thesis using c x zero_token(2) [of rnd] by (simp add: numberToString_def)
  next
    case False
    then show ?thesis using c x numberToString_token(2) [where m = m and e = e and rnd = rnd] by simp
  qed
qed

lemma numchar_plain:
  assumes "isNumChar c"
  shows "\<not> matchesEscapeRegExp c" "\<not> isWs c" "c \<noteq> 0x5D" "c \<noteq> 0x7D" "c \<noteq> 0x5B" "c \<noteq> 0x7B"
    "c \<noteq> 0x22" "c \<noteq> 0x6E" "c \<noteq> 0x74" "c \<noteq> 0x66"
  using assms
  by (auto simp: isNumChar_def isDigit_def matchesEscapeRegExp_def isWs_def
        word_le_nat_alt)

lemma number_plain: "isJsonNumber t \<Longrightarrow> escapeJSONString t = t"
  using isJsonNumber_chars [of t] numchar_plain(1)
  by (intro escapeJSONString_plain) (auto simp: list_all_iff)

lemma parseNumber_text:
  assumes "isJsonNumber t" and "\<forall>c r. rest = c # r \<longrightarrow> \<not> isNumChar c"
  shows "parseNumber rnd (t @ rest) = Some (JsonNumber (numberOfToken rnd t), rest)"
proof -
  have all: "\<And>x. x \<in> set t \<Longrightarrow> isNumChar x"
    using isJsonNumber_chars [OF assms(1)] by (simp add: list_all_iff)
  have r1: "takeWhile isNumChar rest = []" and r2: "dropWhile isNumChar rest = rest"
    using assms(2) by (cases rest; simp)+
  have "takeWhile isNumChar (t @ rest) = t" "dropWhile isNumChar (t @ rest) = rest"
    using all r1 r2 by (simp_all add: takeWhile_append2 dropWhile_append2)
  then show ?thesis
    using assms(1) by (simp add: parseNumber_def)
qed

lemma escape_length: "length s \<le> length (escapeJSONString s)"
proof (induction s)
  case Nil
  then show ?case by simp
next
  case (Cons c s)
  have "1 \<le> length (if matchesEscapeRegExp c then JSON_ESCAPE c else [c])"
    by (auto simp: JSON_ESCAPE_def matchesEscapeRegExp_def)
  then show ?case using Cons by (simp add: escapeJSONString_Cons)
qed

lemma js_null: "js ''null'' = [0x6E, 0x75, 0x6C, 0x6C]"
  and js_true: "js ''true'' = [0x74, 0x72, 0x75, 0x65]"
  and js_false: "js ''false'' = [0x66, 0x61, 0x6C, 0x73, 0x65]"
  by (simp_all add: js_def)

lemma literal_plain:
  "escapeJSONString (js ''null'') = js ''null''"
  "escapeJSONString (js ''true'') = js ''true''"
  "escapeJSONString (js ''false'') = js ''false''"
  by (simp_all add: js_null js_true js_false escapeJSONString_Cons matchesEscapeRegExp_def)

lemma punctuation_plain:
  "escapeJSONString (0x5B # s) = 0x5B # escapeJSONString s"
  "escapeJSONString (0x5D # s) = 0x5D # escapeJSONString s"
  "escapeJSONString (0x7B # s) = 0x7B # escapeJSONString s"
  "escapeJSONString (0x7D # s) = 0x7D # escapeJSONString s"
  "escapeJSONString (0x2C # s) = 0x2C # escapeJSONString s"
  "escapeJSONString (0x3A # s) = 0x3A # escapeJSONString s"
  "escapeJSONString (0x22 # s) = 0x22 # escapeJSONString s"
  by (simp_all add: escapeJSONString_Cons matchesEscapeRegExp_def)

lemma number_text:
  assumes "isExactNumber rnd x"
  shows "JSON_stringify (JsonNumber x) = numberToString x"
    and "escapeJSONString (numberToString x) = numberToString x"
    and "\<exists>c r. numberToString x = c # r \<and> isNumChar c"
proof -
  note x = exact_number_text [OF assms]
  show "JSON_stringify (JsonNumber x) = numberToString x" using x(1) by simp
  show "escapeJSONString (numberToString x) = numberToString x" using x(2) by (rule number_plain)
  show "\<exists>c r. numberToString x = c # r \<and> isNumChar c"
    using isJsonNumber_chars [OF x(2)] by (cases "numberToString x") auto
qed

lemma value_start:
  assumes "wf_json rnd v"
  shows "\<exists>c t. escapeJSONString (JSON_stringify v) = c # t \<and> \<not> isWs c \<and> c \<noteq> 0x5D \<and> c \<noteq> 0x7D"
proof (cases v)
  case (JsonNumber x)
  then have n: "isExactNumber rnd x" using assms by simp
  from number_text(3) [OF n] obtain c r where t: "numberToString x = c # r" and c: "isNumChar c"
    by blast
  show ?thesis
    using numchar_plain [OF c] t JsonNumber number_text(1,2) [OF n] by simp
next
  case (JsonBool b)
  then show ?thesis by (cases b) (simp_all add: literal_plain, simp_all add: js_true js_false isWs_def)
qed (simp_all add: literal_plain escape_quoted punctuation_plain, simp_all add: js_null isWs_def)

lemma keysInOrder_prefix: "keysInOrder (xs @ ys) \<Longrightarrow> keysInOrder xs"
  by (induction xs rule: induct_list012) simp_all

lemma keysInOrder_last:
  "keysInOrder (ks @ [k]) \<Longrightarrow> isArrayIndex k \<Longrightarrow>
     \<forall>x \<in> set ks. isArrayIndex x \<and> digitsValue x < digitsValue k"
proof (induction ks rule: induct_list012)
  case 1
  then show ?case by simp
next
  case (2 a)
  then show ?case by simp
next
  case (3 a b ks)
  have rest: "\<forall>x \<in> set (b # ks). isArrayIndex x \<and> digitsValue x < digitsValue k"
    using 3 by simp
  then have "isArrayIndex a \<and> digitsValue a < digitsValue b" using 3(3) by simp
  then show ?case using rest by auto
qed

lemma insertIndex_last:
  "\<forall>p \<in> set ms. isArrayIndex (fst p) \<and> digitsValue (fst p) < digitsValue (fst m) \<Longrightarrow>
     insertIndex m ms = ms @ [m]"
  by (induction ms) simp_all

lemma defineProperty_last:
  assumes "fst m \<notin> fst ` set acc" and "keysInOrder (map fst (acc @ [m]))"
  shows "defineProperty acc m = acc @ [m]"
proof (cases "isArrayIndex (fst m)")
  case True
  have "keysInOrder (map fst acc @ [fst m])" using assms(2) by simp
  from keysInOrder_last [OF this True]
  have "insertIndex m acc = acc @ [m]" by (intro insertIndex_last) simp
  then show ?thesis using assms(1) True by (simp add: defineProperty_def)
next
  case False
  then show ?thesis using assms(1) by (simp add: defineProperty_def)
qed

lemma defineProperty_fresh:
  "distinct (map fst (acc @ ms)) \<Longrightarrow> keysInOrder (map fst (acc @ ms)) \<Longrightarrow>
     foldl defineProperty acc ms = acc @ ms"
proof (induction ms arbitrary: acc)
  case Nil
  then show ?case by simp
next
  case (Cons m ms)
  have fresh: "fst m \<notin> fst ` set acc" using Cons.prems(1) by auto
  have "keysInOrder (map fst (acc @ [m]) @ map fst ms)" using Cons.prems(2) by simp
  then have "keysInOrder (map fst (acc @ [m]))" by (rule keysInOrder_prefix)
  then have step: "defineProperty acc m = acc @ [m]" using fresh by (rule defineProperty_last [rotated])
  have "distinct (map fst ((acc @ [m]) @ ms))" "keysInOrder (map fst ((acc @ [m]) @ ms))"
    using Cons.prems by simp_all
  from Cons.IH [OF this] show ?case using step by simp
qed

lemma objectOf_distinct:
  "distinct (map fst ms) \<Longrightarrow> keysInOrder (map fst ms) \<Longrightarrow> objectOf ms = JsonObject ms"
  using defineProperty_fresh [of "[]" ms] by (simp add: objectOf_def)


lemma skipWs_start: "\<not> isWs c \<Longrightarrow> skipWs (c # t) = c # t"
  by (simp add: skipWs_def)

lemma skipWs_value:
  assumes "wf_json rnd v"
  shows "skipWs (escapeJSONString (JSON_stringify v) @ rest) = escapeJSONString (JSON_stringify v) @ rest"
proof -
  from value_start [OF assms] obtain c t where
    "escapeJSONString (JSON_stringify v) = c # t" and "\<not> isWs c" by blast
  then show ?thesis by (simp add: skipWs_start)
qed

lemma wf_elements_iff: "wf_elements rnd vs \<longleftrightarrow> (\<forall>v \<in> set vs. wf_json rnd v)"
  by (induction vs) auto

lemma wf_members_iff: "wf_members rnd ms \<longleftrightarrow> (\<forall>m \<in> set ms. wf_json rnd (snd m))"
  by (induction ms) auto

lemma depthElements_bound: "v \<in> set vs \<Longrightarrow> depth v \<le> depthElements vs"
  by (induction vs) auto

lemma depthMembers_bound: "m \<in> set ms \<Longrightarrow> depth (snd m) \<le> depthMembers ms"
  by (induction ms) auto

lemma elementsLoop_text:
  assumes "\<And>v rest. v \<in> set vs \<Longrightarrow> \<forall>c r. rest = c # r \<longrightarrow> \<not> isNumChar c \<Longrightarrow>
             pv (escapeJSONString (JSON_stringify v) @ rest) = Some (v, rest)"
    and "\<And>v. v \<in> set vs \<Longrightarrow> wf_json rnd v"
    and "vs \<noteq> []" and "length vs \<le> k"
  shows "elementsLoop pv k (escapeJSONString (stringifyElements vs) @ 0x5D # rest) = Some (vs, rest)"
  using assms
proof (induction vs arbitrary: k)
  case Nil
  then show ?case by simp
next
  case (Cons v vs)
  from Cons.prems(4) obtain k1 where k: "k = Suc k1" and k1: "length vs \<le> k1"
    by (cases k) auto
  have wfv: "wf_json rnd v" using Cons.prems(2) by simp
  show ?case
  proof (cases vs)
    case Nil
    have "pv (escapeJSONString (JSON_stringify v) @ 0x5D # rest) = Some (v, 0x5D # rest)"
      using Cons.prems(1) [of v "0x5D # rest"] by (simp add: isNumChar_def isDigit_def)
    then show ?thesis
      using Nil k skipWs_value [OF wfv] by (simp add: skipWs_start isWs_def)
  next
    case (Cons w ws)
    let ?tail = "escapeJSONString (stringifyElements vs) @ 0x5D # rest"
    have "pv (escapeJSONString (JSON_stringify v) @ 0x2C # ?tail) = Some (v, 0x2C # ?tail)"
      using Cons.prems(1) [of v "0x2C # ?tail"] by (simp add: isNumChar_def isDigit_def)
    moreover have "elementsLoop pv k1 ?tail = Some (vs, rest)"
      using Cons.IH [of k1] Cons.prems(1,2) k1 Cons by simp
    ultimately show ?thesis
      using Cons k skipWs_value [OF wfv] by (simp add: skipWs_start isWs_def punctuation_plain)
  qed
qed


lemma membersLoop_text:
  assumes "\<And>m rest. m \<in> set ms \<Longrightarrow> \<forall>c r. rest = c # r \<longrightarrow> \<not> isNumChar c \<Longrightarrow>
             pv (escapeJSONString (JSON_stringify (snd m)) @ rest) = Some (snd m, rest)"
    and "\<And>m. m \<in> set ms \<Longrightarrow> wf_json rnd (snd m)"
    and "ms \<noteq> []" and "length ms \<le> k"
  shows "membersLoop pv k (escapeJSONString (stringifyMembers ms) @ 0x7D # rest) = Some (ms, rest)"
  using assms
proof (induction ms arbitrary: k)
  case Nil
  then show ?case by simp
next
  case (Cons m ms)
  obtain key v where m: "m = (key, v)" by (cases m)
  from Cons.prems(4) obtain k1 where k: "k = Suc k1" and k1: "length ms \<le> k1"
    by (cases k) auto
  have wfv: "wf_json rnd v" using Cons.prems(2) [of m] m by simp
  have key: "\<And>x. parseChars (escapeJSONString (quoteUnits key) @ 0x22 # x) = Some (key, x)"
    by (rule parseChars_quoteUnits)
  show ?case
  proof (cases ms)
    case Nil
    have "pv (escapeJSONString (JSON_stringify v) @ 0x7D # rest) = Some (v, 0x7D # rest)"
      using Cons.prems(1) [of m "0x7D # rest"] m by (simp add: isNumChar_def isDigit_def)
    then show ?thesis
      using Nil k m key skipWs_value [OF wfv]
      by (simp add: skipWs_start isWs_def punctuation_plain escape_quoted del: parseChars.simps)
  next
    case (Cons m2 ms2)
    let ?tail = "escapeJSONString (stringifyMembers ms) @ 0x7D # rest"
    have "pv (escapeJSONString (JSON_stringify v) @ 0x2C # ?tail) = Some (v, 0x2C # ?tail)"
      using Cons.prems(1) [of m "0x2C # ?tail"] m by (simp add: isNumChar_def isDigit_def)
    moreover have "membersLoop pv k1 ?tail = Some (ms, rest)"
      using Cons.IH [of k1] Cons.prems(1,2) k1 Cons by simp
    ultimately show ?thesis
      using Cons k m key skipWs_value [OF wfv]
      by (simp add: skipWs_start isWs_def punctuation_plain escape_quoted del: parseChars.simps)
  qed
qed

lemma elements_count: "length vs \<le> Suc (length (escapeJSONString (stringifyElements vs)))"
  by (induction vs rule: induct_list012) (simp_all add: punctuation_plain)

lemma members_count: "length ms \<le> Suc (length (escapeJSONString (stringifyMembers ms)))"
proof (induction ms rule: induct_list012)
  case 1
  then show ?case by simp
next
  case (2 m)
  then show ?case by simp
next
  case (3 m m2 ms)
  obtain k v where "m = (k, v)" by (cases m)
  then show ?case using 3 by (simp add: punctuation_plain)
qed

lemma elements_start:
  assumes "wf_json rnd v"
  shows "\<exists>c t. escapeJSONString (stringifyElements (v # vs)) = c # t \<and> \<not> isWs c \<and> c \<noteq> 0x5D"
proof -
  from value_start [OF assms] obtain c t where
    "escapeJSONString (JSON_stringify v) = c # t" "\<not> isWs c" "c \<noteq> 0x5D" by blast
  then show ?thesis by (cases vs) simp_all
qed

lemma members_start:
  "\<exists>t. escapeJSONString (stringifyMembers (m # ms)) = 0x22 # t"
  by (cases m; cases ms) (simp_all add: escape_quoted)

lemma parseValue_text:
  assumes "wf_json rnd v" and "depth v < d" and "\<forall>c r. rest = c # r \<longrightarrow> \<not> isNumChar c"
  shows "parseValue rnd d (escapeJSONString (JSON_stringify v) @ rest) = Some (v, rest)"
  using assms
proof (induction v arbitrary: d rest)
  case JsonNull
  then obtain d1 where "d = Suc d1" by (cases d) auto
  then show ?case
    by (simp add: js_null escapeJSONString_Cons matchesEscapeRegExp_def)
next
  case (JsonBool b)
  then obtain d1 where "d = Suc d1" by (cases d) auto
  then show ?case
    by (cases b) (simp_all add: js_null js_true js_false escapeJSONString_Cons matchesEscapeRegExp_def)
next
  case (JsonNumber x)
  then obtain d1 where d: "d = Suc d1" by (cases d) auto
  have n: "isExactNumber rnd x" using JsonNumber.prems(1) by simp
  note x = exact_number_text [OF n]
  from number_text(3) [OF n] obtain c r where t: "numberToString x = c # r" and c: "isNumChar c"
    by blast
  have p: "parseNumber rnd (numberToString x @ rest) = Some (JsonNumber x, rest)"
    using parseNumber_text [OF x(2) JsonNumber.prems(3), of rnd] x(3) by simp
  have "parseValue rnd (Suc d1) (c # r @ rest) = parseNumber rnd (c # r @ rest)"
    using numchar_plain [OF c] by (simp add: js_null js_true js_false)
  then show ?case using p t d number_text(1,2) [OF n] by simp
next
  case (JsonString s)
  then obtain d1 where "d = Suc d1" by (cases d) auto
  then show ?case
    by (simp add: escape_quoted parseChars_quoteUnits wrapResult_def del: parseChars.simps)
next
  case (JsonArray vs)
  then obtain d1 where d: "d = Suc d1" and d1: "depthElements vs < d1" by (cases d) auto
  have wf: "\<And>v. v \<in> set vs \<Longrightarrow> wf_json rnd v"
    using JsonArray.prems(1) by (simp add: wf_elements_iff)
  let ?t = "escapeJSONString (stringifyElements vs) @ 0x5D # rest"
  have shape: "escapeJSONString (JSON_stringify (JsonArray vs)) @ rest = 0x5B # ?t"
    by (simp add: punctuation_plain)
  show ?case
  proof (cases vs)
    case Nil
    then show ?thesis unfolding shape d by (simp add: skipWs_start isWs_def)
  next
    case (Cons v vs1)
    have each: "\<And>v rest. v \<in> set vs \<Longrightarrow> \<forall>c r. rest = c # r \<longrightarrow> \<not> isNumChar c \<Longrightarrow>
        parseValue rnd d1 (escapeJSONString (JSON_stringify v) @ rest) = Some (v, rest)"
      using JsonArray.IH wf d1 depthElements_bound by (meson le_less_trans)
    have loop: "elementsLoop (parseValue rnd d1) (length ?t) ?t = Some (vs, rest)"
      using each wf elements_count [of vs] Cons
      by (intro elementsLoop_text) simp_all
    from elements_start [where v = v and vs = vs1 and rnd = rnd] wf Cons obtain c t where
      start: "escapeJSONString (stringifyElements vs) = c # t" and c: "\<not> isWs c" "c \<noteq> 0x5D"
      by auto
    have skip: "skipWs ?t = c # t @ 0x5D # rest"
      using start c by (simp add: skipWs_start)
    show ?thesis
      unfolding shape d using skip c loop by (simp add: wrapResult_def)
  qed
next
  case (JsonObject ms)
  then obtain d1 where d: "d = Suc d1" and d1: "depthMembers ms < d1" by (cases d) auto
  have wf: "\<And>m. m \<in> set ms \<Longrightarrow> wf_json rnd (snd m)"
    and keys: "distinct (map fst ms)" "keysInOrder (map fst ms)"
    using JsonObject.prems(1) by (simp_all add: wf_members_iff)
  let ?t = "escapeJSONString (stringifyMembers ms) @ 0x7D # rest"
  have shape: "escapeJSONString (JSON_stringify (JsonObject ms)) @ rest = 0x7B # ?t"
    by (simp add: punctuation_plain)
  show ?case
  proof (cases ms)
    case Nil
    then show ?thesis unfolding shape d by (simp add: skipWs_start isWs_def)
  next
    case (Cons m ms1)
    have each: "\<And>m rest. m \<in> set ms \<Longrightarrow> \<forall>c r. rest = c # r \<longrightarrow> \<not> isNumChar c \<Longrightarrow>
        parseValue rnd d1 (escapeJSONString (JSON_stringify (snd m)) @ rest) = Some (snd m, rest)"
    proof -
      fix m rest
      assume m: "m \<in> set ms" and r: "\<forall>c r. rest = c # r \<longrightarrow> \<not> isNumChar c"
      have "snd m \<in> Basic_BNFs.snds m" by (cases m) simp
      moreover have "depth (snd m) < d1" using depthMembers_bound [OF m] d1 by simp
      ultimately show "parseValue rnd d1 (escapeJSONString (JSON_stringify (snd m)) @ rest) = Some (snd m, rest)"
        using JsonObject.IH [OF m _ wf [OF m] _ r] by blast
    qed
    have loop: "membersLoop (parseValue rnd d1) (length ?t) ?t = Some (ms, rest)"
      using each wf members_count [of ms] Cons
      by (intro membersLoop_text) simp_all
    from members_start [of m ms1] Cons obtain t where
      start: "escapeJSONString (stringifyMembers ms) = 0x22 # t"
      by auto
    have skip: "skipWs ?t = 0x22 # t @ 0x7D # rest"
      using start by (simp add: skipWs_start isWs_def)
    show ?thesis
      unfolding shape d using skip loop keys by (simp add: wrapResult_def objectOf_distinct)
  qed
qed



lemma depthElements_le:
  "(\<And>v. v \<in> set vs \<Longrightarrow> depth v < length (escapeJSONString (JSON_stringify v))) \<Longrightarrow>
     depthElements vs \<le> length (escapeJSONString (stringifyElements vs))"
proof (induction vs rule: induct_list012)
  case 1
  then show ?case by simp
next
  case (2 v)
  then show ?case by (simp add: less_imp_le)
next
  case (3 v w vs)
  have "depth v < length (escapeJSONString (JSON_stringify v))" using 3(3) by simp
  moreover have "depthElements (w # vs) \<le> length (escapeJSONString (stringifyElements (w # vs)))"
    using 3(2,3) by simp
  moreover have "length (escapeJSONString (stringifyElements (v # w # vs)))
      = length (escapeJSONString (JSON_stringify v)) + 1
        + length (escapeJSONString (stringifyElements (w # vs)))"
    by (simp add: punctuation_plain)
  moreover have "depthElements (v # w # vs) = max (depth v) (depthElements (w # vs))"
    by simp
  ultimately show ?case by linarith
qed

lemma depthMembers_le:
  "(\<And>m. m \<in> set ms \<Longrightarrow> depth (snd m) < length (escapeJSONString (JSON_stringify (snd m)))) \<Longrightarrow>
     depthMembers ms \<le> length (escapeJSONString (stringifyMembers ms))"
proof (induction ms rule: induct_list012)
  case 1
  then show ?case by simp
next
  case (2 m)
  obtain k v where m: "m = (k, v)" by (cases m)
  have "depth v < length (escapeJSONString (JSON_stringify v))" using 2 [of m] m by simp
  then show ?case using m by (simp add: punctuation_plain)
next
  case (3 m m2 ms)
  obtain k v where m: "m = (k, v)" by (cases m)
  have "depth v < length (escapeJSONString (JSON_stringify v))" using 3(3) [of m] m by simp
  moreover have "depthMembers (m2 # ms) \<le> length (escapeJSONString (stringifyMembers (m2 # ms)))"
    using 3(2,3) by simp
  moreover have "length (escapeJSONString (stringifyMembers (m # m2 # ms)))
      = length (escapeJSONString (quoteJSONString k)) + 1
        + length (escapeJSONString (JSON_stringify v)) + 1
        + length (escapeJSONString (stringifyMembers (m2 # ms)))"
    using m by (simp add: punctuation_plain)
  moreover have "depthMembers (m # m2 # ms) = max (depth v) (depthMembers (m2 # ms))"
    using m by simp
  ultimately show ?case by linarith
qed

lemma depth_less_length:
  "wf_json rnd v \<Longrightarrow> depth v < length (escapeJSONString (JSON_stringify v))"
proof (induction v)
  case (JsonArray vs)
  have "depth v < length (escapeJSONString (JSON_stringify v))" if "v \<in> set vs" for v
    using JsonArray.IH [OF that] JsonArray.prems that by (simp add: wf_elements_iff)
  then have "depthElements vs \<le> length (escapeJSONString (stringifyElements vs))"
    by (rule depthElements_le)
  then show ?case by (simp add: punctuation_plain)
next
  case (JsonObject ms)
  have "depth (snd m) < length (escapeJSONString (JSON_stringify (snd m)))" if m: "m \<in> set ms" for m
  proof -
    have "snd m \<in> Basic_BNFs.snds m" by (cases m) simp
    then show ?thesis
      using JsonObject.IH [OF m] JsonObject.prems m by (simp add: wf_members_iff)
  qed
  then have "depthMembers ms \<le> length (escapeJSONString (stringifyMembers ms))"
    by (rule depthMembers_le)
  then show ?case by (simp add: punctuation_plain)
next
  case (JsonNumber x)
  then have n: "isExactNumber rnd x" by simp
  from number_text(3) [OF n] obtain c r where "numberToString x = c # r" by blast
  then show ?case using number_text(1,2) [OF n] by simp
qed (simp_all add: js_null js_true js_false escape_quoted escapeJSONString_Cons
       matchesEscapeRegExp_def)

lemma JSON_parse_escaped:
  assumes "wf_json rnd v"
  shows "JSON_parse rnd (escapeJSONString (JSON_stringify v)) = Inr v"
proof -
  let ?t = "escapeJSONString (JSON_stringify v)"
  have "parseValue rnd (length ?t) (?t @ []) = Some (v, [])"
    using assms depth_less_length [OF assms] by (intro parseValue_text) simp_all
  moreover have "skipWs ?t = ?t"
    using skipWs_value [OF assms, of "[]"] by simp
  ultimately show ?thesis
    by (simp add: JSON_parse_def skipWs_def)
qed

lemma escaped_characters:
  "\<forall>c \<in> set (escapeJSONString s). c \<noteq> 0x3C \<and> c \<noteq> 0x3E \<and> c \<noteq> 0x26 \<and> c \<noteq> 0x2028 \<and> c \<noteq> 0x2029"
  using escaped_plain [of s] by (auto simp: matchesEscapeRegExp_def)

text \<open>
  Examples of the host functions: number tokens denote Numbers whatever their spelling,
  a Number is written in one way, and the properties of a parsed object come in
  enumeration order.
\<close>

lemma number_tokens:
  "numberOfToken demo_rounding (js ''2.50'') = Decimal 25 (- 1)"
  "numberOfToken demo_rounding (js ''1E2'') = Decimal 1 2"
  "numberOfToken demo_rounding (js ''-0'') = NegZero"
  "numberOfToken demo_rounding (js ''0'') = Decimal 0 0"
  by code_simp+

lemma number_texts:
  "numberToString (Decimal 25 (- 1)) = js ''2.5''"
  "numberToString (Decimal 1 2) = js ''100''"
  "numberToString (Decimal (- 25) 20) = js ''-2.5e+21''"
  "numberToString (Decimal 123 (- 8)) = js ''0.00000123''"
  "numberToString NegZero = js ''0''"
  by code_simp+

lemma parsed_keys_in_enumeration_order:
  "JSON_parse demo_rounding (JSON_stringify (JsonObject [(js ''b'', JsonNull), (js ''1'', JsonNull)]))
     = Inr (JsonObject [(js ''1'', JsonNull), (js ''b'', JsonNull)])"
  by code_simp

text \<open>
  C5. For every entry of the shoebox, createShoebox appends the script element with the
  id of the key whose text block is the escaped JSON text of the value; the block has
  no occurrence of <, >, & or of the code units U+2028 and U+2029; and when every
  number in the value is a finite Number of the host other than -0 (and the objects
  list their properties in enumeration order, as objects do), JSON.parse of the block,
  which reads the escapes back, gives the value, whatever the nesting and whatever the
  rounding \<open>rnd\<close> of the host.
\<close>

theorem shoebox_roundtrip:
  assumes "(key, value) \<in> set entries"
  shows "\<exists>el \<in> set (createShoebox els (Some entries)).
           idAttribute el = js ''shoebox-'' @ key
           \<and> rawSection el = escapeJSONString (JSON_stringify value)
           \<and> (\<forall>c \<in> set (rawSection el).
                 c \<noteq> 0x3C \<and> c \<noteq> 0x3E \<and> c \<noteq> 0x26 \<and> c \<noteq> 0x2028 \<and> c \<noteq> 0x2029)
           \<and> (wf_json rnd value \<longrightarrow> JSON_parse rnd (rawSection el) = Inr value)"
proof -
  have "shoeboxElement (key, value) \<in> set (createShoebox els (Some entries))"
    using assms by (auto simp: createShoebox_def)
  moreover have "rawSection (shoeboxElement (key, value)) = escapeJSONString (JSON_stringify value)"
    and "idAttribute (shoeboxElement (key, value)) = js ''shoebox-'' @ key"
    by (simp_all add: shoeboxElement_def)
  ultimately show ?thesis
    using escaped_characters JSON_parse_escaped by (intro bexI [of _ "shoeboxElement (key, value)"]) auto
qed

theorem shoebox_roundtrip_witness:
  "wf_json demo_rounding demo_value
   \<and> JSON_parse demo_rounding (escapeJSONString (JSON_stringify demo_value)) = Inr demo_value
   \<and> 0x3C \<notin> set (escapeJSONString (JSON_stringify demo_value))
   \<and> 0x3E \<notin> set (escapeJSONString (JSON_stringify demo_value))
   \<and> 0x26 \<notin> set (escapeJSONString (JSON_stringify demo_value))
   \<and> 0x2028 \<notin> set (escapeJSONString (JSON_stringify demo_value))
   \<and> 0x2029 \<notin> set (escapeJSONString (JSON_stringify demo_value))"
proof -
  have wf: "wf_json demo_rounding demo_value"
    unfolding demo_value_def by code_simp
  from shoebox_roundtrip [of "js ''state''" demo_value "[(js ''state'', demo_value)]" "[]" demo_rounding] wf
  show ?thesis
    by (auto simp: createShoebox_def shoeboxElement_def)
qed

text \<open>
  The value -0 is not read back: JSON.stringify writes it as 0, the shoebox block is the
  text 0, and JSON.parse of that block is +0, which is another Number.
\<close>

theorem negative_zero_read_back_as_zero:
  "map rawSection (createShoebox [] (Some [(js ''n'', JsonNumber NegZero)])) = [js ''0'']
   \<and> JSON_parse demo_rounding (js ''0'') = Inr (JsonNumber (Decimal 0 0))
   \<and> JsonNumber (Decimal 0 0) \<noteq> JsonNumber NegZero"
proof -
  have "JSON_stringify (JsonNumber NegZero) = js ''0''"
    by (simp add: isFiniteNumber_def numberToString_def)
  moreover have "escapeJSONString (js ''0'') = js ''0''"
    by (simp add: js_def escapeJSONString_Cons matchesEscapeRegExp_def)
  moreover have "JSON_parse demo_rounding (js ''0'') = Inr (JsonNumber (Decimal 0 0))"
    by code_simp
  ultimately show ?thesis
    by (simp add: createShoebox_def shoeboxElement_def)
qed

end
